theory Spec2Isabelle
  imports Complex_Main
begin

section \<open>Numbers\<close>

text \<open>
  The program computes with JavaScript numbers. Finite numbers are modelled as exact reals
  (no rounding, no overflow); \<open>NonFinite\<close> stands for any of NaN, Infinity and -Infinity and
  appears exactly where the source divides by zero or takes the logarithm of a number that
  is not positive. Counters that the source only ever increments from an integer start
  (\<open>iteration\<close>, \<open>Px\<close>, \<open>Py\<close>, \<open>i\<close>) and the sizes \<open>width\<close>, \<open>height\<close>, \<open>iterations\<close>,
  \<open>xSkip\<close> are natural numbers.
\<close>

datatype jsnum = Num real | NonFinite

text \<open>\<open>a / b\<close> on finite numbers: a zero divisor gives NaN or an infinity.\<close>

definition js_div :: "real \<Rightarrow> real \<Rightarrow> jsnum" where
  "js_div a b = (if b = 0 then NonFinite else Num (a / b))"

text \<open>\<open>Math.log\<close>: NaN below zero, -Infinity at zero.\<close>

definition js_log :: "real \<Rightarrow> jsnum" where
  "js_log v = (if 0 < v then Num (ln v) else NonFinite)"

text \<open>
  A finite factor or summand applied to a number: NaN and the infinities stay non-finite
  under \<open>c * _\<close>, \<open>_ * c\<close>, \<open>_ + c\<close> and \<open>_ - c\<close> for every finite \<open>c\<close>
  (\<open>0 * Infinity\<close> is NaN).
\<close>

fun js_map :: "(real \<Rightarrow> real) \<Rightarrow> jsnum \<Rightarrow> jsnum" where
  "js_map f (Num v) = Num (f v)"
| "js_map f NonFinite = NonFinite"

section \<open>The escape-time loop of \<open>_baseRender\<close>\<close>

text \<open>
  Lines 159 to 167: the \<open>while\<close> loop on \<open>x\<close>, \<open>y\<close>, \<open>iteration\<close>. It returns the final
  value of \<open>iteration\<close>.
\<close>

function escape_loop :: "real \<Rightarrow> real \<Rightarrow> nat \<Rightarrow> real \<Rightarrow> real \<Rightarrow> nat \<Rightarrow> nat" where
  "escape_loop x0 y0 iterations x y iteration =
     (if x * x + y * y < 4 \<and> iteration < iterations
      then escape_loop x0 y0 iterations (x * x - y * y + x0) (2 * x * y + y0) (iteration + 1)
      else iteration)"
  by pat_completeness auto
termination
  by (relation "measure (\<lambda>(x0, y0, iterations, x, y, iteration). iterations - iteration)") auto

declare escape_loop.simps [simp del]

text \<open>
  Line 168: \<open>((iteration==iterations) ? 0 : iteration)/iterations\<close>.
\<close>

definition normalize :: "nat \<Rightarrow> nat \<Rightarrow> jsnum" where
  "normalize iteration iterations =
     js_div (if iteration = iterations then 0 else real iteration) (real iterations)"

text \<open>
  Lines 159 to 168 for a finite coordinate \<open>(x0, y0)\<close>: the escape-time evaluator.
\<close>

definition escapeTime :: "real \<Rightarrow> real \<Rightarrow> nat \<Rightarrow> jsnum" where
  "escapeTime x0 y0 iterations = normalize (escape_loop x0 y0 iterations 0 0 0) iterations"

subsection \<open>The quadratic orbit, as the specification words it\<close>

text \<open>
  \<open>orbit x0 y0 n\<close> is \<open>z\<close> after \<open>n\<close> steps of \<open>z \<leftarrow> z\<^sup>2 + c\<close> from \<open>z = 0\<close>, with
  \<open>c = (x0, y0)\<close>; \<open>bounded z\<close> says \<open>|z|\<^sup>2 < 4\<close>.
\<close>

fun orbit :: "real \<Rightarrow> real \<Rightarrow> nat \<Rightarrow> real \<times> real" where
  "orbit x0 y0 0 = (0, 0)"
| "orbit x0 y0 (Suc n) =
     (case orbit x0 y0 n of (x, y) \<Rightarrow> (x * x - y * y + x0, 2 * x * y + y0))"

definition bounded :: "real \<times> real \<Rightarrow> bool" where
  "bounded z = (case z of (x, y) \<Rightarrow> x * x + y * y < 4)"

text \<open>
  The number of iterations the specification's loop performs: the first \<open>n\<close> below the cap
  for which \<open>z\<close> has left the disc after \<open>n\<close> steps, and the cap when there is none.
\<close>

definition performed :: "real \<Rightarrow> real \<Rightarrow> nat \<Rightarrow> nat" where
  "performed x0 y0 K =
     (case find (\<lambda>n. \<not> bounded (orbit x0 y0 n)) [0..<K] of
        None \<Rightarrow> K
      | Some n \<Rightarrow> n)"

section \<open>The render configuration and the viewport transform\<close>

text \<open>
  \<open>this.heightScalar\<close> is \<open>null\<close> after construction, \<open>undefined\<close> after a sequential
  render (its callback receives no \<open>heightScalar\<close>) and a number after a worker's message.
\<close>

datatype hscalar = HNull | HUndefined | HNum jsnum

text \<open>
  The object \<open>rConfig\<close> of \<open>render\<close> (lines 55 to 64). \<open>xInit\<close> is absent there and assigned
  by \<open>_renderWorkers\<close> and \<open>_renderDirect\<close> before any use; it starts as \<open>0\<close> here.
\<close>

record rConfig =
  heightScalar :: hscalar
  iterations :: nat
  scale :: real
  width :: nat
  height :: nat
  xDelta :: real
  yDelta :: real
  xSkip :: nat
  xInit :: nat

text \<open>
  Line 150, \<open>(3.5*height/width)/scale\<close>: a zero \<open>width\<close> or \<open>scale\<close> divides by zero.
\<close>

definition heightScalar_of :: "rConfig \<Rightarrow> jsnum" where
  "heightScalar_of c =
     (if width c = 0 \<or> scale c = 0 then NonFinite
      else Num ((3.5 * real (height c) / real (width c)) / scale c))"

text \<open>
  Lines 149, 150 and 155 to 158 for the pixel \<open>(Px, Py)\<close>. The loops reach these lines with
  \<open>Px < width\<close> and \<open>Py < height\<close> only. With \<open>scale = 0\<close> both scalars are infinite and both
  \<open>x0\<close> and \<open>y0\<close> are NaN (Infinity minus Infinity); that is the result \<open>None\<close>.
\<close>

definition coordinates :: "rConfig \<Rightarrow> nat \<Rightarrow> nat \<Rightarrow> (real \<times> real) option" where
  "coordinates c Px Py =
     (if scale c = 0 \<or> width c = 0 \<or> height c = 0 then None
      else
        let widthScalar = 3.5 / scale c;
            heightScalar = (3.5 * real (height c) / real (width c)) / scale c;
            Tx = real Px - (xDelta c * scale c);
            Ty = real Py - (yDelta c * scale c);
            x0 = ((widthScalar / real (width c)) * Tx) - widthScalar / 1.4;
            y0 = ((heightScalar / real (height c)) * Ty) - heightScalar / 2
        in Some (x0, y0))"

text \<open>
  Lines 159 to 168 for one pixel. On NaN coordinates the first iteration runs when
  \<open>0 < iterations\<close> (the test reads \<open>x = y = 0\<close>), makes \<open>x\<close> and \<open>y\<close> NaN, and the test
  \<open>x*x + y*y < 4\<close> then fails: \<open>iteration\<close> ends as \<open>min 1 iterations\<close>.
\<close>

definition pixelIntensity :: "rConfig \<Rightarrow> nat \<Rightarrow> nat \<Rightarrow> jsnum" where
  "pixelIntensity c Px Py =
     (case coordinates c Px Py of
        Some (x0, y0) \<Rightarrow> escapeTime x0 y0 (iterations c)
      | None \<Rightarrow> normalize (min 1 (iterations c)) (iterations c))"

text \<open>
  The viewport transform as the specification writes it, for comparison.
\<close>

definition spec_viewport :: "real \<Rightarrow> real \<Rightarrow> real \<Rightarrow> real \<Rightarrow> real \<Rightarrow> real \<Rightarrow> real \<Rightarrow> real \<times> real \<times> real" where
  "spec_viewport Px Py W H s dx dy =
     (let widthScalar = 3.5 / s;
          heightScalar = (3.5 * H / W) / s;
          Tx = Px - dx * s;
          Ty = Py - dy * s
      in ((widthScalar / W) * Tx - widthScalar / 1.4,
          (heightScalar / H) * Ty - heightScalar / 2,
          heightScalar))"

section \<open>The loops of \<open>_baseRender\<close>\<close>

datatype js_error = ReferenceError | TypeError

text \<open>
  A call returns normally or throws; either way it leaves a state behind.
\<close>

datatype 's result = Ok 's | Throw js_error 's

fun state_of :: "'s result \<Rightarrow> 's" where
  "state_of (Ok s) = s"
| "state_of (Throw e s) = s"

fun is_Ok :: "'s result \<Rightarrow> bool" where
  "is_Ok (Ok s) = True"
| "is_Ok (Throw e s) = False"

text \<open>
  The object passed to the callback or posted to the main thread for one column.
\<close>

record column =
  col_Px :: nat
  col_line :: "jsnum list"
  col_heightScalar :: hscalar

text \<open>
  Lines 153 to 170: the loop on \<open>Py\<close> that fills \<open>line\<close>.
\<close>

function line_loop :: "rConfig \<Rightarrow> nat \<Rightarrow> nat \<Rightarrow> jsnum list \<Rightarrow> jsnum list" where
  "line_loop c Px Py line =
     (if Py < height c
      then line_loop c Px (Py + 1) (line @ [pixelIntensity c Px Py])
      else line)"
  by pat_completeness auto
termination
  by (relation "measure (\<lambda>(c, Px, Py, line). height c - Py)") auto

declare line_loop.simps [simp del]

text \<open>
  Lines 152 to 173: the loop on \<open>Px\<close>. \<open>emit\<close> is what lines 171 and 172 do with the
  finished column. With \<open>xSkip = 0\<close> and \<open>xInit < width\<close> the loop does not end: the value
  is \<open>None\<close>. A throwing callback ends the loop.
\<close>

partial_function (option) column_loop ::
  "rConfig \<Rightarrow> (nat \<Rightarrow> jsnum list \<Rightarrow> 's \<Rightarrow> 's result) \<Rightarrow> nat \<Rightarrow> 's \<Rightarrow> 's result option" where
  "column_loop c emit Px s =
     (if Px < width c
      then (case emit Px (line_loop c Px 0 []) s of
              Ok s' \<Rightarrow> column_loop c emit (Px + xSkip c) s'
            | Throw e s' \<Rightarrow> Some (Throw e s'))
      else Some (Ok s))"

declare column_loop.simps [code]

text \<open>
  \<open>_baseRender(e, cb)\<close>, lines 143 to 174. \<open>cb\<close> is \<open>None\<close> when the function runs in a
  worker, and \<open>postMessage\<close> is the global function of that worker.
\<close>

definition baseRender ::
  "rConfig \<Rightarrow> (column \<Rightarrow> 's \<Rightarrow> 's result) option \<Rightarrow> (column \<Rightarrow> 's \<Rightarrow> 's result) \<Rightarrow> 's
   \<Rightarrow> 's result option" where
  "baseRender c cb postMessage s =
     column_loop c
       (\<lambda>Px line.
          case cb of
            Some f \<Rightarrow> f \<lparr>col_Px = Px, col_line = line, col_heightScalar = HUndefined\<rparr>
          | None \<Rightarrow>
              postMessage \<lparr>col_Px = Px, col_line = line,
                           col_heightScalar = HNum (heightScalar_of c)\<rparr>)
       (xInit c) s"

text \<open>
  In a worker, \<open>postMessage\<close> queues the column for the main thread. \<open>worker_output c\<close> is
  the sequence of columns a worker posts for the message \<open>c\<close>.
\<close>

definition postMessage :: "column \<Rightarrow> column list \<Rightarrow> column list result" where
  "postMessage m out = Ok (out @ [m])"

definition worker_output :: "rConfig \<Rightarrow> column list option" where
  "worker_output c = map_option state_of (baseRender c None postMessage [])"

text \<open>
  For the statements: the column indices a worker posts for the message \<open>c\<close>, and the
  indices \<open>Px, Px + skip, Px + 2*skip, \<dots>\<close> below \<open>W\<close>.
\<close>

definition task_columns :: "rConfig \<Rightarrow> nat list option" where
  "task_columns c = map_option (map col_Px) (worker_output c)"

function stride :: "nat \<Rightarrow> nat \<Rightarrow> nat \<Rightarrow> nat list" where
  "stride Px skip W = (if Px < W \<and> 0 < skip then Px # stride (Px + skip) skip W else [])"
  by pat_completeness auto
termination
  by (relation "measure (\<lambda>(Px, skip, W). W - Px)") auto

declare stride.simps [simp del]

section \<open>The pixel shader\<close>

record pixel =
  p_x :: nat
  p_y :: nat
  p_r :: jsnum
  p_g :: jsnum
  p_b :: jsnum
  p_a :: nat

text \<open>The table \<open>shaderModes\<close> of the constructor.\<close>

definition BLUE :: int where "BLUE = 0"
definition WHITE :: int where "WHITE = 1"
definition HIST :: int where "HIST = 2"
definition INTHIST :: int where "INTHIST = 3"

text \<open>Line 188 and line 189.\<close>

fun blue_int1 :: "jsnum \<Rightarrow> jsnum" where
  "blue_int1 (Num intensity) =
     js_map (\<lambda>l. intensity * ((-1/4) * l - 0.25)) (js_log ((-1/11.112347) * intensity + 0.09))"
| "blue_int1 NonFinite = NonFinite"

fun blue_int2 :: "jsnum \<Rightarrow> jsnum" where
  "blue_int2 (Num intensity) =
     js_map (\<lambda>l. intensity * (1 - 2.4 * l)) (js_log (intensity + 0.0000000001))"
| "blue_int2 NonFinite = NonFinite"

text \<open>
  \<open>_pixelShader\<close>, lines 185 to 202. The result \<open>Inr None\<close> is \<open>undefined\<close>: the branches
  of \<open>HIST\<close> and \<open>INTHIST\<close> leave the \<open>switch\<close> and the function ends without a \<open>return\<close>.
  The \<open>default\<close> branch evaluates the arguments of its recursive call in order; the third,
  \<open>intentisty\<close>, is bound nowhere in the file, so reading it throws a ReferenceError before
  the call is made.
\<close>

definition pixelShader :: "nat \<Rightarrow> nat \<Rightarrow> jsnum \<Rightarrow> int \<Rightarrow> js_error + pixel option" where
  "pixelShader Px Py intensity mode =
     (if mode = BLUE then
        (let int1 = blue_int1 intensity;
             int2 = blue_int2 intensity
         in Inr (Some \<lparr>p_x = Px, p_y = Py, p_r = js_map (\<lambda>v. 255 * v) int1,
                        p_g = js_map (\<lambda>v. 255 * v) int1, p_b = js_map (\<lambda>v. 255 * v) int2,
                        p_a = 255\<rparr>))
      else if mode = WHITE then
        Inr (Some \<lparr>p_x = Px, p_y = Py, p_r = js_map (\<lambda>v. 255 * v) intensity,
                    p_g = js_map (\<lambda>v. 255 * v) intensity,
                    p_b = js_map (\<lambda>v. 255 * v) intensity, p_a = 255\<rparr>)
      else if mode = HIST then Inr None
      else if mode = INTHIST then Inr None
      else Inl ReferenceError)"

section \<open>The state: the \<open>Mandelbrot\<close> object, its canvas and its workers\<close>

text \<open>
  A worker created by \<open>_renderWorkers\<close>: the render call that created it (\<open>w_gen\<close>, kept
  for the statements only), the \<open>width\<close> and \<open>xSkip\<close> its message handler closes over, the
  columns it has still to deliver to the main thread (\<open>None\<close> when its loop would not
  end), and whether \<open>terminate()\<close> has been called on it.
\<close>

record worker =
  w_gen :: nat
  w_width :: nat
  w_xSkip :: nat
  w_outbox :: "column list option"
  w_terminated :: bool

text \<open>
  The fields of the object that the file reads, and around them what its calls reach:
  the canvas (its size, the pixels passed to \<open>drawBufferedPixel\<close> since the last
  \<open>clearBuffer\<close>, each with the render call it was computed for, and the number of
  \<open>flushBuffer\<close> calls), the workers created so far, \<open>window.Worker\<close>, the number of
  clock readings taken, the number of \<open>setTimeout\<close> callbacks that are pending, and the
  number of \<open>render\<close> calls so far. \<open>this.width\<close> and \<open>this.height\<close> are \<open>undefined\<close>
  until the first \<open>render\<close>, which assigns them before reading them.
\<close>

record mandelbrot =
  m_iterations :: nat
  m_scale :: real
  m_xDelta :: real
  m_yDelta :: real
  m_parallelism :: nat
  m_heightScalar :: hscalar
  m_shader :: int
  m_renderParallel :: bool
  m_width :: nat
  m_height :: nat
  m_renderThreads :: "nat list"
  cv_width :: nat
  cv_height :: nat
  cv_buffer :: "(nat \<times> pixel option) list"
  cv_flushes :: nat
  workers :: "worker list"
  window_Worker :: bool
  clk :: nat
  timers :: nat
  gen :: nat

text \<open>
  The constructor, lines 16 to 43, on a canvas of the given size.
\<close>

definition constructor :: "nat \<Rightarrow> nat \<Rightarrow> bool \<Rightarrow> mandelbrot" where
  "constructor canvas_width canvas_height has_Worker =
     \<lparr>m_iterations = 256, m_scale = 1.0, m_xDelta = 0, m_yDelta = 0, m_parallelism = 2,
      m_heightScalar = HNull, m_shader = BLUE, m_renderParallel = True,
      m_width = 0, m_height = 0, m_renderThreads = [],
      cv_width = canvas_width, cv_height = canvas_height, cv_buffer = [], cv_flushes = 0,
      workers = [], window_Worker = has_Worker, clk = 0, timers = 0, gen = 0\<rparr>"

subsection \<open>The calls on the canvas\<close>

definition clearBuffer :: "mandelbrot \<Rightarrow> mandelbrot" where
  "clearBuffer s = s\<lparr>cv_buffer := []\<rparr>"

definition drawBufferedPixel :: "nat \<Rightarrow> pixel option \<Rightarrow> mandelbrot \<Rightarrow> mandelbrot" where
  "drawBufferedPixel g p s = s\<lparr>cv_buffer := cv_buffer s @ [(g, p)]\<rparr>"

definition flushBuffer :: "mandelbrot \<Rightarrow> mandelbrot" where
  "flushBuffer s = s\<lparr>cv_flushes := cv_flushes s + 1\<rparr>"

text \<open>
  Lines 94 to 96 and 123 to 125: \<open>line.map\<close> shades and draws the intensities of a column
  in order, \<open>idx\<close> counting from \<open>0\<close>; an exception of the shader ends it.
\<close>

fun draw_line :: "nat \<Rightarrow> nat \<Rightarrow> nat \<Rightarrow> jsnum list \<Rightarrow> mandelbrot \<Rightarrow> mandelbrot result" where
  "draw_line g Px idx [] s = Ok s"
| "draw_line g Px idx (intensity # rest) s =
     (case pixelShader Px idx intensity (m_shader s) of
        Inl e \<Rightarrow> Throw e s
      | Inr p \<Rightarrow> draw_line g Px (idx + 1) rest (drawBufferedPixel g p s))"

text \<open>
  For the statements: the entries that drawing a column adds to the buffer when the
  shader returns for every intensity.
\<close>

fun shade :: "nat \<Rightarrow> nat \<Rightarrow> nat \<Rightarrow> jsnum list \<Rightarrow> int \<Rightarrow> (nat \<times> pixel option) list" where
  "shade g Px idx [] mode = []"
| "shade g Px idx (intensity # rest) mode =
     (g, case pixelShader Px idx intensity mode of Inl e \<Rightarrow> None | Inr p \<Rightarrow> p)
       # shade g Px (idx + 1) rest mode"

subsection \<open>\<open>_renderWorkers\<close>\<close>

text \<open>
  The remainder \<open>a % b\<close> for \<open>b \<noteq> 0\<close>: the quotient is truncated towards zero.
\<close>

definition js_rem :: "real \<Rightarrow> real \<Rightarrow> real" where
  "js_rem a b = a - b * of_int (if 0 \<le> a / b then \<lfloor>a / b\<rfloor> else \<lceil>a / b\<rceil>)"

text \<open>
  The condition of line 98. With \<open>width*xSkip/100 = 0\<close> the remainder is NaN and
  \<open>NaN <= 1\<close> is false. The difference \<open>width-xSkip-1\<close> may be negative.
\<close>

definition flush_due :: "nat \<Rightarrow> nat \<Rightarrow> nat \<Rightarrow> bool" where
  "flush_due width' xSkip' Px =
     ((real width' * real xSkip' / 100 \<noteq> 0
         \<and> js_rem (real Px) (real width' * real xSkip' / 100) \<le> 1)
      \<or> int Px > int width' - int xSkip' - 1)"

definition terminate :: "nat \<Rightarrow> mandelbrot \<Rightarrow> mandelbrot" where
  "terminate k s =
     (if k < length (workers s)
      then s\<lparr>workers := (workers s)[k := (workers s ! k)\<lparr>w_terminated := True\<rparr>]\<rparr>
      else s)"

text \<open>
  The message handler of lines 93 to 102, for the column \<open>e\<close> of a worker created by the
  render call \<open>g\<close>. \<open>width'\<close> and \<open>xSkip'\<close> are the constants of lines 84 and 85. \<open>i\<close> is
  the loop variable of line 92, declared with \<open>var\<close> and so shared by all handlers: the
  handler reads the value it has when the message arrives. \<open>this.renderThreads[i]\<close> is
  \<open>undefined\<close> past the end of the array, and the call on it throws a TypeError.
\<close>

definition worker_onmessage ::
  "nat \<Rightarrow> nat \<Rightarrow> nat \<Rightarrow> nat \<Rightarrow> column \<Rightarrow> mandelbrot \<Rightarrow> mandelbrot result" where
  "worker_onmessage g width' xSkip' i e s =
     (case draw_line g (col_Px e) 0 (col_line e) s of
        Throw err s1 \<Rightarrow> Throw err s1
      | Ok s1 \<Rightarrow>
          (let s2 = s1\<lparr>m_heightScalar := col_heightScalar e\<rparr>;
               s3 = (if flush_due width' xSkip' (col_Px e) then flushBuffer s2 else s2)
           in if int (col_Px e) \<ge> int width' - (int xSkip' - int i)
              then (if i < length (m_renderThreads s3)
                    then Ok (terminate (m_renderThreads s3 ! i) s3)
                    else Throw TypeError s3)
              else Ok s3))"

text \<open>
  Lines 88 to 90: \<open>pop\<close> and \<open>terminate\<close> until \<open>renderThreads\<close> is empty.
\<close>

function kill_loop :: "mandelbrot \<Rightarrow> mandelbrot" where
  "kill_loop s =
     (if length (m_renderThreads s) > 0
      then kill_loop
             (terminate (last (m_renderThreads s))
                (s\<lparr>m_renderThreads := butlast (m_renderThreads s)\<rparr>))
      else s)"
  by pat_completeness auto
termination
  by (relation "measure (\<lambda>s. length (m_renderThreads s))") (auto simp: terminate_def)

declare kill_loop.simps [simp del]

text \<open>
  \<open>new SyntheticWorker(this._baseRender, handler)\<close> followed by \<open>postMessage(rConfig)\<close>:
  the worker receives a copy of \<open>rConfig\<close> as it is at the call and runs \<open>_baseRender\<close>
  on it without a callback. The new worker is stored at \<open>renderThreads[i]\<close>; an assignment
  at the end of an array extends it.
\<close>

definition spawn :: "rConfig \<Rightarrow> nat \<Rightarrow> mandelbrot \<Rightarrow> mandelbrot" where
  "spawn rc i s =
     (let k = length (workers s);
          w = \<lparr>w_gen = gen s, w_width = width rc, w_xSkip = xSkip rc,
               w_outbox = worker_output rc, w_terminated = False\<rparr>
      in s\<lparr>workers := workers s @ [w],
           m_renderThreads :=
             (if i < length (m_renderThreads s) then (m_renderThreads s)[i := k]
              else m_renderThreads s @ [k])\<rparr>)"

text \<open>
  Lines 92 to 106: the loop on \<open>i\<close>. Its bound is the constant \<open>xSkip\<close> of line 84.
\<close>

function spawn_loop :: "nat \<Rightarrow> rConfig \<Rightarrow> nat \<Rightarrow> mandelbrot \<Rightarrow> mandelbrot" where
  "spawn_loop xSkip' rc i s =
     (if i < xSkip'
      then spawn_loop xSkip' (rc\<lparr>xInit := i\<rparr>) (i + 1) (spawn (rc\<lparr>xInit := i\<rparr>) i s)
      else s)"
  by pat_completeness auto
termination
  by (relation "measure (\<lambda>(xSkip', rc, i, s). xSkip' - i)") auto

declare spawn_loop.simps [simp del]

definition renderWorkers :: "rConfig \<Rightarrow> mandelbrot \<Rightarrow> mandelbrot" where
  "renderWorkers rc s = spawn_loop (xSkip rc) rc 0 (kill_loop s)"

subsection \<open>\<open>_renderDirect\<close>\<close>

text \<open>
  \<open>new Date().getTime()\<close> reads a clock that the program does not control: \<open>tm n\<close> is the
  value of the \<open>n\<close>-th reading. The callback of lines 122 to 133 runs on the local
  variable \<open>timeout\<close> and the state; \<open>setTimeout\<close> leaves one more callback pending.
\<close>

definition direct_cb :: "(nat \<Rightarrow> int) \<Rightarrow> column \<Rightarrow> int \<times> mandelbrot \<Rightarrow> (int \<times> mandelbrot) result" where
  "direct_cb tm toRender ts =
     (case ts of (timeout, s) \<Rightarrow>
        (case draw_line (gen s) (col_Px toRender) 0 (col_line toRender) s of
           Throw err s1 \<Rightarrow> Throw err (timeout, s1)
         | Ok s1 \<Rightarrow>
             (let s2 = s1\<lparr>m_heightScalar := col_heightScalar toRender\<rparr>;
                  now = tm (clk s2);
                  s3 = s2\<lparr>clk := clk s2 + 1\<rparr>
              in if now - timeout > 50
                 then Ok (tm (clk s3), s3\<lparr>clk := clk s3 + 1, timers := timers s3 + 1\<rparr>)
                 else Ok (timeout, s3))))"

text \<open>
  The main thread's own \<open>postMessage\<close> is not reached: \<open>_renderDirect\<close> passes a callback.
\<close>

definition window_postMessage :: "column \<Rightarrow> int \<times> mandelbrot \<Rightarrow> (int \<times> mandelbrot) result" where
  "window_postMessage m ts = Ok ts"

fun drop_local :: "(int \<times> mandelbrot) result \<Rightarrow> mandelbrot result" where
  "drop_local (Ok (timeout, s)) = Ok s"
| "drop_local (Throw e (timeout, s)) = Throw e s"

definition renderDirect :: "(nat \<Rightarrow> int) \<Rightarrow> rConfig \<Rightarrow> mandelbrot \<Rightarrow> mandelbrot result option" where
  "renderDirect tm rc s =
     (let conf = rc\<lparr>xSkip := 1, xInit := 0\<rparr>;
          timeout = tm (clk s);
          s1 = s\<lparr>clk := clk s + 1\<rparr>
      in map_option drop_local
           (baseRender conf (Some (direct_cb tm)) window_postMessage (timeout, s1)))"

subsection \<open>\<open>render\<close>\<close>

text \<open>
  Lines 49 to 74. The count \<open>gen\<close> of render calls is advanced first.
\<close>

definition render :: "(nat \<Rightarrow> int) \<Rightarrow> mandelbrot \<Rightarrow> mandelbrot result option" where
  "render tm s0 =
     (let s = s0\<lparr>gen := gen s0 + 1\<rparr>;
          s1 = (if m_width s \<noteq> cv_width s \<or> m_height s \<noteq> cv_height s
                then s\<lparr>m_width := cv_width s, m_height := cv_height s\<rparr> else s);
          rc = \<lparr>heightScalar = m_heightScalar s1, iterations = m_iterations s1,
                scale = m_scale s1, width = m_width s1, height = m_height s1,
                xDelta = m_xDelta s1, yDelta = m_yDelta s1, xSkip = m_parallelism s1,
                xInit = 0\<rparr>;
          s2 = clearBuffer s1
      in if window_Worker s2 \<and> m_renderParallel s2
         then Some (Ok (renderWorkers rc s2))
         else renderDirect tm rc s2)"


subsection \<open>The end-to-end scenario of the specification\<close>

text \<open>
  An object on a 4 by 4 canvas without workers, with scale \<open>1\<close> and pan \<open>(0, 0)\<close> as
  constructed, \<open>50\<close> iterations, the White shader and parallelism \<open>1\<close>; and the pixels
  expected in the buffer, column by column.
\<close>

definition scenario :: mandelbrot where
  "scenario = (constructor 4 4 False)\<lparr>m_iterations := 50, m_shader := WHITE, m_parallelism := 1\<rparr>"

definition gray :: "nat \<Rightarrow> nat \<Rightarrow> real \<Rightarrow> pixel option" where
  "gray Px Py v = Some \<lparr>p_x = Px, p_y = Py, p_r = Num v, p_g = Num v, p_b = Num v, p_a = 255\<rparr>"

definition scenario_framebuffer :: "pixel option list" where
  "scenario_framebuffer =
     [gray 0 0 (51/10), gray 0 1 (51/10), gray 0 2 (51/10), gray 0 3 (51/10),
      gray 1 0 (51/10), gray 1 1 (153/10), gray 1 2 0, gray 1 3 (153/10),
      gray 2 0 (51/5), gray 2 1 (102/5), gray 2 2 0, gray 2 3 (102/5),
      gray 3 0 (51/5), gray 3 1 (51/2), gray 3 2 0, gray 3 3 (51/2)]"

section \<open>The event loop\<close>

text \<open>
  The main thread runs one handler at a time, to its end. An event is a call of
  \<open>render\<close> by the page, the arrival of the next column of a worker, the firing of a
  pending \<open>setTimeout\<close> callback, a resize of the canvas, or the page assigning the
  viewport fields of the object. A worker on which \<open>terminate()\<close> was called delivers
  nothing more: its queued messages are dropped with it. A message arrives after the
  turn of the main thread that created its worker, so the loop variable \<open>i\<close> of line 92
  has its final value \<open>xSkip\<close> when the handler reads it. When a handler throws, the
  state is as the handler left it.
\<close>

datatype event =
    CallRender
  | Message nat
  | Timer
  | Resize nat nat
  | Configure nat real real real nat int

fun step :: "(nat \<Rightarrow> int) \<Rightarrow> mandelbrot \<Rightarrow> event \<Rightarrow> mandelbrot option" where
  "step tm s CallRender = map_option state_of (render tm s)"
| "step tm s (Message k) =
     (if k < length (workers s) \<and> \<not> w_terminated (workers s ! k)
      then (case w_outbox (workers s ! k) of
              Some (e # rest) \<Rightarrow>
                Some (state_of
                  (worker_onmessage (w_gen (workers s ! k)) (w_width (workers s ! k))
                     (w_xSkip (workers s ! k)) (w_xSkip (workers s ! k)) e
                     (s\<lparr>workers := (workers s)[k := (workers s ! k)\<lparr>w_outbox := Some rest\<rparr>]\<rparr>)))
            | _ \<Rightarrow> None)
      else None)"
| "step tm s Timer =
     (if 0 < timers s then Some (flushBuffer (s\<lparr>timers := timers s - 1\<rparr>)) else None)"
| "step tm s (Resize w h) = Some (s\<lparr>cv_width := w, cv_height := h\<rparr>)"
| "step tm s (Configure its sc dx dy par sh) =
     Some (s\<lparr>m_iterations := its, m_scale := sc, m_xDelta := dx, m_yDelta := dy,
             m_parallelism := par, m_shader := sh\<rparr>)"


section \<open>Properties of the escape-time evaluator\<close>

lemma escape_loop_step:
  "x * x + y * y < 4 \<Longrightarrow> iteration < K \<Longrightarrow>
   escape_loop x0 y0 K x y iteration =
   escape_loop x0 y0 K (x * x - y * y + x0) (2 * x * y + y0) (iteration + 1)"
  by (subst escape_loop.simps) simp

lemma escape_loop_stop:
  "\<not> (x * x + y * y < 4 \<and> iteration < K) \<Longrightarrow>
   escape_loop x0 y0 K x y iteration = iteration"
  by (subst escape_loop.simps) (simp only: if_False)

lemma escape_loop_bounds:
  "iteration \<le> K \<Longrightarrow>
   iteration \<le> escape_loop x0 y0 K x y iteration \<and>
   escape_loop x0 y0 K x y iteration \<le> K"
proof (induction x0 y0 K x y iteration rule: escape_loop.induct)
  case (1 x0 y0 K x y iteration)
  show ?case
  proof (cases "x * x + y * y < 4 \<and> iteration < K")
    case True
    then have "iteration + 1 \<le> K" by simp
    with "1.IH" True
    have "iteration + 1 \<le> escape_loop x0 y0 K (x * x - y * y + x0) (2 * x * y + y0) (iteration + 1)
        \<and> escape_loop x0 y0 K (x * x - y * y + x0) (2 * x * y + y0) (iteration + 1) \<le> K"
      by blast
    with True show ?thesis
      by (simp add: escape_loop_step)
  next
    case False
    with "1.prems" show ?thesis
      by (simp add: escape_loop_stop)
  qed
qed

lemma escape_loop_first:
  "0 < K \<Longrightarrow> 1 \<le> escape_loop x0 y0 K 0 0 0"
proof -
  assume K: "0 < K"
  have "escape_loop x0 y0 K 0 0 0 = escape_loop x0 y0 K x0 y0 1"
    using K escape_loop_step [of 0 0 0 K x0 y0] by simp
  moreover have "1 \<le> escape_loop x0 y0 K x0 y0 1"
    using K escape_loop_bounds [of 1 K x0 y0 x0 y0] by simp
  ultimately show ?thesis by simp
qed

text \<open>
  The loop refines the specification's count: started on the orbit at step \<open>iteration\<close>,
  with the disc not left before, it returns \<open>performed\<close>.
\<close>

lemma performed_all:
  assumes "\<forall>n<K. bounded (orbit x0 y0 n)"
  shows "performed x0 y0 K = K"
proof -
  from assms have "find (\<lambda>n. \<not> bounded (orbit x0 y0 n)) [0..<K] = None"
    by (simp add: find_None_iff)
  then show ?thesis by (simp add: performed_def)
qed

lemma performed_escape:
  assumes "i < K" "\<not> bounded (orbit x0 y0 i)" "\<forall>n<i. bounded (orbit x0 y0 n)"
  shows "performed x0 y0 K = i"
proof -
  have "find (\<lambda>n. \<not> bounded (orbit x0 y0 n)) [0..<K] = Some i"
    unfolding find_Some_iff
  proof (intro exI [of _ i] conjI allI impI)
    show "i < length [0..<K]" using assms(1) by simp
    show "\<not> bounded (orbit x0 y0 ([0..<K] ! i))" using assms(1,2) by simp
    show "i = [0..<K] ! i" using assms(1) by simp
  next
    fix j assume "j < i"
    with assms(1,3) show "\<not> \<not> bounded (orbit x0 y0 ([0..<K] ! j))" by simp
  qed
  then show ?thesis by (simp add: performed_def)
qed

lemma performed_first:
  assumes "\<not> (\<forall>n<K. bounded (orbit x0 y0 n))"
  shows "performed x0 y0 K < K \<and> \<not> bounded (orbit x0 y0 (performed x0 y0 K))
       \<and> (\<forall>n<performed x0 y0 K. bounded (orbit x0 y0 n))"
proof -
  from assms have "find (\<lambda>n. \<not> bounded (orbit x0 y0 n)) [0..<K] \<noteq> None"
    by (simp add: find_None_iff)
  then obtain m where m: "find (\<lambda>n. \<not> bounded (orbit x0 y0 n)) [0..<K] = Some m"
    by blast
  then obtain i where i: "i < length [0..<K]" and out: "\<not> bounded (orbit x0 y0 ([0..<K] ! i))"
    and mi: "m = [0..<K] ! i" and before: "\<forall>j<i. \<not> \<not> bounded (orbit x0 y0 ([0..<K] ! j))"
    unfolding find_Some_iff by blast
  from i have iK: "i < K" by simp
  with mi have "m = i" by simp
  moreover from m have "performed x0 y0 K = m" by (simp add: performed_def)
  ultimately have p: "performed x0 y0 K = i" by simp
  have "\<forall>n<i. bounded (orbit x0 y0 n)"
  proof (intro allI impI)
    fix n assume n: "n < i"
    with before have "bounded (orbit x0 y0 ([0..<K] ! n))" by blast
    with n iK show "bounded (orbit x0 y0 n)" by simp
  qed
  moreover from out iK have "\<not> bounded (orbit x0 y0 i)" by simp
  ultimately show ?thesis using p iK by simp
qed

lemma escape_loop_performed:
  "iteration \<le> K \<Longrightarrow> orbit x0 y0 iteration = (x, y) \<Longrightarrow>
   \<forall>n<iteration. bounded (orbit x0 y0 n) \<Longrightarrow>
   escape_loop x0 y0 K x y iteration = performed x0 y0 K"
proof (induction x0 y0 K x y iteration rule: escape_loop.induct)
  case (1 x0 y0 K x y iteration)
  show ?case
  proof (cases "x * x + y * y < 4 \<and> iteration < K")
    case True
    have b: "bounded (orbit x0 y0 iteration)"
      using True "1.prems"(2) by (simp add: bounded_def)
    have "\<forall>n<iteration + 1. bounded (orbit x0 y0 n)"
      using b "1.prems"(3) by (simp add: less_Suc_eq)
    moreover have "orbit x0 y0 (iteration + 1) = (x * x - y * y + x0, 2 * x * y + y0)"
      using "1.prems"(2) by simp
    moreover have "iteration + 1 \<le> K"
      using True by simp
    ultimately have
      "escape_loop x0 y0 K (x * x - y * y + x0) (2 * x * y + y0) (iteration + 1)
       = performed x0 y0 K"
      using "1.IH" True by blast
    with True show ?thesis
      by (simp add: escape_loop_step)
  next
    case False
    then have stop: "escape_loop x0 y0 K x y iteration = iteration"
      by (rule escape_loop_stop)
    show ?thesis
    proof (cases "iteration < K")
      case True
      with False have "\<not> bounded (orbit x0 y0 iteration)"
        using "1.prems"(2) by (simp add: bounded_def)
      with True "1.prems"(3) have "performed x0 y0 K = iteration"
        using performed_escape [of iteration K x0 y0] by blast
      with stop show ?thesis by simp
    next
      case False
      with "1.prems"(1) have "iteration = K" by simp
      with "1.prems"(3) have "performed x0 y0 K = iteration"
        using performed_all [of K x0 y0] by blast
      with stop show ?thesis by simp
    qed
  qed
qed

lemma performed_cap: "performed x0 y0 K = K \<longleftrightarrow> (\<forall>n<K. bounded (orbit x0 y0 n))"
proof
  assume eq: "performed x0 y0 K = K"
  show "\<forall>n<K. bounded (orbit x0 y0 n)"
  proof (rule ccontr)
    assume "\<not> (\<forall>n<K. bounded (orbit x0 y0 n))"
    then have "performed x0 y0 K < K" using performed_first by blast
    with eq show False by simp
  qed
next
  assume "\<forall>n<K. bounded (orbit x0 y0 n)"
  then show "performed x0 y0 K = K" by (rule performed_all)
qed

text \<open>
  C1. For every coordinate \<open>(x0, y0)\<close> and every cap \<open>K \<ge> 1\<close> the evaluator returns \<open>0\<close> or
  one of \<open>1/K, \<dots>, (K-1)/K\<close>, and never \<open>1\<close>. It returns \<open>0\<close> when the loop performs all
  \<open>K\<close> steps, that is when \<open>|z|\<^sup>2 < 4\<close> held before each of them; otherwise it returns
  the number of steps performed, divided by \<open>K\<close>, and that number is the first step
  at which \<open>|z|\<^sup>2 \<ge> 4\<close>. An orbit that leaves the disc only with the \<open>K\<close>-th iteration
  has reached the cap and is given \<open>0\<close>.
\<close>

theorem escapeTime_range:
  assumes "1 \<le> K"
  shows "escapeTime x0 y0 K \<in> {Num 0} \<union> {Num (real i / real K) | i. 1 \<le> i \<and> i < K}
       \<and> escapeTime x0 y0 K \<noteq> Num 1
       \<and> escape_loop x0 y0 K 0 0 0 = performed x0 y0 K
       \<and> 1 \<le> performed x0 y0 K \<and> performed x0 y0 K \<le> K
       \<and> ((\<forall>n<K. bounded (orbit x0 y0 n)) \<longrightarrow> escapeTime x0 y0 K = Num 0)
       \<and> (\<not> (\<forall>n<K. bounded (orbit x0 y0 n)) \<longrightarrow>
            performed x0 y0 K < K
          \<and> \<not> bounded (orbit x0 y0 (performed x0 y0 K))
          \<and> (\<forall>n<performed x0 y0 K. bounded (orbit x0 y0 n))
          \<and> escapeTime x0 y0 K = Num (real (performed x0 y0 K) / real K))"
proof -
  let ?p = "performed x0 y0 K"
  have loop: "escape_loop x0 y0 K 0 0 0 = ?p"
    by (rule escape_loop_performed) simp_all
  have lo: "1 \<le> ?p"
    using escape_loop_first [of K x0 y0] assms loop by simp
  have hi: "?p \<le> K"
    using escape_loop_bounds [of 0 K x0 y0 0 0] loop by simp
  have val: "escapeTime x0 y0 K = Num (if ?p = K then 0 else real ?p / real K)"
    using assms loop by (simp add: escapeTime_def normalize_def js_div_def)
  have mem: "escapeTime x0 y0 K \<in> {Num 0} \<union> {Num (real i / real K) | i. 1 \<le> i \<and> i < K}"
  proof (cases "?p = K")
    case True
    with val show ?thesis by simp
  next
    case False
    with hi have "?p < K" by simp
    with lo val False show ?thesis by auto
  qed
  have ne1: "escapeTime x0 y0 K \<noteq> Num 1"
  proof (cases "?p = K")
    case True
    with val show ?thesis by simp
  next
    case False
    with hi have "?p < K" by simp
    then have "real ?p / real K < 1" by simp
    with val False show ?thesis by simp
  qed
  have zero: "(\<forall>n<K. bounded (orbit x0 y0 n)) \<longrightarrow> escapeTime x0 y0 K = Num 0"
    using val by (simp add: performed_all)
  have esc: "\<not> (\<forall>n<K. bounded (orbit x0 y0 n)) \<longrightarrow>
            ?p < K \<and> \<not> bounded (orbit x0 y0 ?p) \<and> (\<forall>n<?p. bounded (orbit x0 y0 n))
          \<and> escapeTime x0 y0 K = Num (real ?p / real K)"
  proof
    assume neg: "\<not> (\<forall>n<K. bounded (orbit x0 y0 n))"
    then have f: "?p < K \<and> \<not> bounded (orbit x0 y0 ?p) \<and> (\<forall>n<?p. bounded (orbit x0 y0 n))"
      by (rule performed_first)
    then have "?p \<noteq> K" by simp
    with val have "escapeTime x0 y0 K = Num (real ?p / real K)" by simp
    with f show
      "?p < K \<and> \<not> bounded (orbit x0 y0 ?p) \<and> (\<forall>n<?p. bounded (orbit x0 y0 n))
          \<and> escapeTime x0 y0 K = Num (real ?p / real K)"
      by simp
  qed
  from mem ne1 loop lo hi zero esc show ?thesis by blast
qed

text \<open>
  The theorem at the origin with cap \<open>3\<close> (the orbit stays at \<open>0\<close>) and at \<open>c = -5/2\<close> with
  cap \<open>2\<close> (the first step leaves the disc).
\<close>

theorem escapeTime_range_witness:
  "(1::nat) \<le> 3 \<and> escapeTime 0 0 3 = Num 0
   \<and> (1::nat) \<le> 2 \<and> escapeTime (-5/2) 0 2 = Num (1/2)"
proof -
  have h3: "(1::nat) \<le> 3" and h2: "(1::nat) \<le> 2" by simp_all
  have a: "\<forall>n<3. bounded (orbit 0 0 n)"
    by (auto simp: bounded_def less_Suc_eq numeral_3_eq_3)
  have out: "\<not> bounded (orbit (-5/2) 0 1)"
    by (simp add: bounded_def)
  have b: "\<not> (\<forall>n<2. bounded (orbit (-5/2) 0 n))"
  proof
    assume "\<forall>n<2. bounded (orbit (-5/2) 0 n)"
    then have "(1::nat) < 2 \<longrightarrow> bounded (orbit (-5/2) 0 1)" by (rule spec)
    with out show False by simp
  qed
  have c: "performed (-5/2) 0 2 = 1"
    by (rule performed_escape) (simp_all add: bounded_def)
  from a escapeTime_range [OF h3, of 0 0] have "escapeTime 0 0 3 = Num 0"
    by blast
  moreover from b escapeTime_range [OF h2, of "-5/2" 0]
  have "escapeTime (-5/2) 0 2 = Num (real (performed (-5/2) 0 2) / real 2)"
    by blast
  ultimately show ?thesis using c by simp
qed

section \<open>Properties of the viewport transform\<close>

lemma line_loop_map_gen:
  "Py \<le> height c \<Longrightarrow>
   line_loop c Px Py line = line @ map (pixelIntensity c Px) [Py..<height c]"
proof (induction c Px Py line rule: line_loop.induct)
  case (1 c Px Py line)
  show ?case
  proof (cases "Py < height c")
    case True
    then have "line_loop c Px Py line = line_loop c Px (Py + 1) (line @ [pixelIntensity c Px Py])"
      by (subst line_loop.simps) simp
    also have "\<dots> = (line @ [pixelIntensity c Px Py]) @ map (pixelIntensity c Px) [Py + 1..<height c]"
      using True "1.IH" by simp
    also have "\<dots> = line @ map (pixelIntensity c Px) [Py..<height c]"
      using True by (simp add: upt_conv_Cons)
    finally show ?thesis .
  next
    case False
    with "1.prems" have "Py = height c" by simp
    then show ?thesis by (subst line_loop.simps) simp
  qed
qed

lemma line_loop_map: "line_loop c Px 0 [] = map (pixelIntensity c Px) [0..<height c]"
  using line_loop_map_gen [of 0 c Px "[]"] by simp

text \<open>
  C2. For a positive width, height and scale, lines 149 to 158 compute the coordinate
  \<open>(x0, y0)\<close> and the \<open>heightScalar\<close> of the specification's formulas, and the entry of the
  column's line for row \<open>Py\<close> is the escape-time intensity at that coordinate. The transform
  reads the configuration only: it is a function of \<open>rConfig\<close> and the pixel, and no state
  is among its arguments or results.
\<close>

theorem viewport_transform:
  assumes "0 < width c" and "0 < height c" and "0 < scale c"
  shows "coordinates c Px Py =
           (case spec_viewport (real Px) (real Py) (real (width c)) (real (height c))
                   (scale c) (xDelta c) (yDelta c) of
              (x0, y0, hs) \<Rightarrow> Some (x0, y0))
       \<and> heightScalar_of c =
           (case spec_viewport (real Px) (real Py) (real (width c)) (real (height c))
                   (scale c) (xDelta c) (yDelta c) of
              (x0, y0, hs) \<Rightarrow> Num hs)
       \<and> (Py < height c \<longrightarrow>
            line_loop c Px 0 [] ! Py =
              (case spec_viewport (real Px) (real Py) (real (width c)) (real (height c))
                      (scale c) (xDelta c) (yDelta c) of
                 (x0, y0, hs) \<Rightarrow> escapeTime x0 y0 (iterations c)))"
proof -
  have c: "coordinates c Px Py =
           (case spec_viewport (real Px) (real Py) (real (width c)) (real (height c))
                   (scale c) (xDelta c) (yDelta c) of
              (x0, y0, hs) \<Rightarrow> Some (x0, y0))"
    using assms by (simp add: coordinates_def spec_viewport_def Let_def)
  have h: "heightScalar_of c =
           (case spec_viewport (real Px) (real Py) (real (width c)) (real (height c))
                   (scale c) (xDelta c) (yDelta c) of
              (x0, y0, hs) \<Rightarrow> Num hs)"
    using assms by (simp add: heightScalar_of_def spec_viewport_def Let_def)
  have l: "Py < height c \<longrightarrow>
            line_loop c Px 0 [] ! Py =
              (case spec_viewport (real Px) (real Py) (real (width c)) (real (height c))
                      (scale c) (xDelta c) (yDelta c) of
                 (x0, y0, hs) \<Rightarrow> escapeTime x0 y0 (iterations c))"
  proof
    assume "Py < height c"
    then have "line_loop c Px 0 [] ! Py = pixelIntensity c Px Py"
      by (simp add: line_loop_map)
    also have "\<dots> = (case spec_viewport (real Px) (real Py) (real (width c)) (real (height c))
                      (scale c) (xDelta c) (yDelta c) of
                 (x0, y0, hs) \<Rightarrow> escapeTime x0 y0 (iterations c))"
      unfolding pixelIntensity_def c by (simp split: prod.splits)
    finally show "line_loop c Px 0 [] ! Py =
              (case spec_viewport (real Px) (real Py) (real (width c)) (real (height c))
                      (scale c) (xDelta c) (yDelta c) of
                 (x0, y0, hs) \<Rightarrow> escapeTime x0 y0 (iterations c))" .
  qed
  from c h l show ?thesis by blast
qed

text \<open>
  The theorem on the 4 by 4 image at scale \<open>1\<close>, pixel \<open>(1, 3)\<close>.
\<close>

theorem viewport_transform_witness:
  "coordinates \<lparr>heightScalar = HNull, iterations = 50, scale = 1, width = 4, height = 4,
                 xDelta = 0, yDelta = 0, xSkip = 1, xInit = 0\<rparr> 1 3 = Some (-13/8, 7/8)
   \<and> heightScalar_of \<lparr>heightScalar = HNull, iterations = 50, scale = 1, width = 4, height = 4,
                 xDelta = 0, yDelta = 0, xSkip = 1, xInit = 0\<rparr> = Num (7/2)"
  using viewport_transform [of "\<lparr>heightScalar = HNull, iterations = 50, scale = 1, width = 4,
                 height = 4, xDelta = 0, yDelta = 0, xSkip = 1, xInit = 0\<rparr>" 1 3]
  by (simp add: spec_viewport_def Let_def)

section \<open>Properties of the pixel shader\<close>

text \<open>
  C10. For an intensity in \<open>[0, 1)\<close> both arguments of \<open>Math.log\<close> in the Blue branch are
  positive, and the branch returns a pixel whose \<open>r\<close>, \<open>g\<close> and \<open>b\<close> are finite numbers and
  whose \<open>a\<close> is \<open>255\<close>.
\<close>

theorem blue_finite:
  assumes "0 \<le> i" and "i < 1"
  shows "0 < (-1/11.112347) * i + 0.09 \<and> 0 < i + 0.0000000001
       \<and> pixelShader Px Py (Num i) BLUE =
           Inr (Some \<lparr>p_x = Px, p_y = Py,
                  p_r = Num (255 * (i * ((-1/4) * ln ((-1/11.112347) * i + 0.09) - 0.25))),
                  p_g = Num (255 * (i * ((-1/4) * ln ((-1/11.112347) * i + 0.09) - 0.25))),
                  p_b = Num (255 * (i * (1 - 2.4 * ln (i + 0.0000000001)))),
                  p_a = 255\<rparr>)"
proof -
  have a: "0 < (-1/11.112347) * i + 0.09" using assms by simp
  have b: "0 < i + 0.0000000001" using assms by simp
  from a b show ?thesis
    by (simp add: pixelShader_def js_log_def Let_def)
qed

text \<open>
  The theorem at the intensity \<open>1/2\<close>.
\<close>

theorem blue_finite_witness:
  "pixelShader 0 0 (Num (1/2)) BLUE =
     Inr (Some \<lparr>p_x = 0, p_y = 0,
            p_r = Num (255 * (1/2 * ((-1/4) * ln ((-1/11.112347) * (1/2) + 0.09) - 0.25))),
            p_g = Num (255 * (1/2 * ((-1/4) * ln ((-1/11.112347) * (1/2) + 0.09) - 0.25))),
            p_b = Num (255 * (1/2 * (1 - 2.4 * ln (1/2 + 0.0000000001)))),
            p_a = 255\<rparr>)"
  using blue_finite [of "1/2" 0 0] by simp

text \<open>
  C5. In the modes \<open>HIST\<close> and \<open>INTHIST\<close> the shader returns \<open>undefined\<close>, for every pixel
  and every intensity: it raises nothing and it returns no colour.
\<close>

theorem pixelShader_hist:
  "pixelShader Px Py intensity HIST = Inr None \<and> pixelShader Px Py intensity INTHIST = Inr None"
  by (simp add: pixelShader_def BLUE_def WHITE_def HIST_def INTHIST_def)

text \<open>
  C6. In a mode that is none of the four of \<open>shaderModes\<close> the shader throws a
  ReferenceError, for every pixel and every intensity: it does not return what the Blue
  mode returns.
\<close>

theorem pixelShader_unknown:
  "mode \<notin> {BLUE, WHITE, HIST, INTHIST} \<Longrightarrow> pixelShader Px Py intensity mode = Inl ReferenceError"
  by (simp add: pixelShader_def)

text \<open>
  The theorem at the mode \<open>7\<close>.
\<close>

theorem pixelShader_unknown_witness:
  "pixelShader 0 0 (Num (1/2)) 7 = Inl ReferenceError"
  using pixelShader_unknown [of 7 0 0 "Num (1/2)"]
  by (simp add: BLUE_def WHITE_def HIST_def INTHIST_def)

section \<open>Properties of drawing and of the message handler\<close>

lemma pixelShader_known:
  "mode \<in> {BLUE, WHITE, HIST, INTHIST} \<Longrightarrow> \<exists>p. pixelShader Px Py v mode = Inr p"
  by (auto simp: pixelShader_def Let_def)

lemma draw_line_known:
  "m_shader s \<in> {BLUE, WHITE, HIST, INTHIST} \<Longrightarrow>
   draw_line g Px idx line s = Ok (s\<lparr>cv_buffer := cv_buffer s @ shade g Px idx line (m_shader s)\<rparr>)"
proof (induction line arbitrary: idx s)
  case Nil
  then show ?case by simp
next
  case (Cons v vs)
  from Cons.prems obtain p where p: "pixelShader Px idx v (m_shader s) = Inr p"
    using pixelShader_known by blast
  have "m_shader (drawBufferedPixel g p s) \<in> {BLUE, WHITE, HIST, INTHIST}"
    using Cons.prems by (simp add: drawBufferedPixel_def)
  from Cons.IH [OF this, of "idx + 1"] p show ?case
    by (simp add: drawBufferedPixel_def)
qed


text \<open>
  C8, as the code has it. When the shader mode is Blue or White, the handler of a
  worker's message flushes the buffer for every column \<open>Px > width - xSkip - 1\<close>, that is
  for each of the last \<open>xSkip\<close> columns of the image.
\<close>

theorem flush_last_columns:
  assumes "m_shader s = BLUE \<or> m_shader s = WHITE"
    and "int (col_Px e) > int width' - int xSkip' - 1"
  shows "cv_flushes (state_of (worker_onmessage g width' xSkip' i e s)) = cv_flushes s + 1"
proof -
  from assms(1) have "m_shader s \<in> {BLUE, WHITE, HIST, INTHIST}" by auto
  then have d: "draw_line g (col_Px e) 0 (col_line e) s
      = Ok (s\<lparr>cv_buffer := cv_buffer s @ shade g (col_Px e) 0 (col_line e) (m_shader s)\<rparr>)"
    by (rule draw_line_known)
  from assms(2) have f: "flush_due width' xSkip' (col_Px e)"
    by (simp add: flush_due_def)
  show ?thesis
    unfolding worker_onmessage_def d
    using f by (simp add: Let_def flushBuffer_def terminate_def)
qed

text \<open>
  The theorem on column \<open>998\<close> of an image of width \<open>1000\<close> with two workers.
\<close>

theorem flush_last_columns_witness:
  "cv_flushes (state_of (worker_onmessage 1 1000 2 2
      \<lparr>col_Px = 998, col_line = [Num 0], col_heightScalar = HNum (Num (7/2000))\<rparr>
      (constructor 1000 1 True))) = 1"
proof -
  have "m_shader (constructor 1000 1 True) = BLUE \<or> m_shader (constructor 1000 1 True) = WHITE"
    by (simp add: constructor_def)
  moreover have "int (col_Px \<lparr>col_Px = 998, col_line = [Num 0], col_heightScalar = HNum (Num (7/2000))\<rparr>)
      > int 1000 - int 2 - 1"
    by simp
  ultimately have "cv_flushes (state_of (worker_onmessage 1 1000 2 2
      \<lparr>col_Px = 998, col_line = [Num 0], col_heightScalar = HNum (Num (7/2000))\<rparr>
      (constructor 1000 1 True))) = cv_flushes (constructor 1000 1 True) + 1"
    by (rule flush_last_columns)
  then show ?thesis by (simp add: constructor_def)
qed

text \<open>
  Column \<open>997 = width - xSkip - 1\<close> of the same image is one of the last \<open>xSkip + 1\<close>
  columns, and the handler does not flush after drawing it: \<open>997 % 20 = 17\<close>.
\<close>

theorem flush_last_columns_counterexample:
  "int 997 \<ge> int 1000 - int 2 - 1
   \<and> cv_flushes (state_of (worker_onmessage 1 1000 2 2
        \<lparr>col_Px = 997, col_line = [Num 0], col_heightScalar = HNum (Num (7/2000))\<rparr>
        (constructor 1000 1 True))) = cv_flushes (constructor 1000 1 True)"
proof -
  have k: "m_shader (constructor 1000 1 True) \<in> {BLUE, WHITE, HIST, INTHIST}"
    by (simp add: constructor_def)
  have f: "\<not> flush_due 1000 2 997"
    by (simp add: flush_due_def js_rem_def)
  show ?thesis
    unfolding worker_onmessage_def draw_line_known [OF k]
    using f by (simp add: Let_def terminate_def)
qed

section \<open>Properties of the column loop and of \<open>_renderWorkers\<close>\<close>

lemma stride_set:
  "0 < N \<Longrightarrow> set (stride Px N W) = {P. Px \<le> P \<and> P < W \<and> (\<exists>k. P = Px + k * N)}"
proof (induction Px N W rule: stride.induct)
  case (1 Px skip W)
  show ?case
  proof (cases "Px < W")
    case True
    have step: "stride Px skip W = Px # stride (Px + skip) skip W"
      using True "1.prems" by (subst stride.simps) simp
    have ih: "set (stride (Px + skip) skip W)
        = {P. Px + skip \<le> P \<and> P < W \<and> (\<exists>k. P = Px + skip + k * skip)}"
      using "1.IH" True "1.prems" by simp
    have "{P. Px \<le> P \<and> P < W \<and> (\<exists>k. P = Px + k * skip)}
        = insert Px {P. Px + skip \<le> P \<and> P < W \<and> (\<exists>k. P = Px + skip + k * skip)}"
      (is "?L = insert Px ?R")
    proof (rule set_eqI)
      fix P
      show "P \<in> ?L \<longleftrightarrow> P \<in> insert Px ?R"
      proof
        assume "P \<in> ?L"
        then obtain k where k: "P = Px + k * skip" and lt: "P < W" by blast
        show "P \<in> insert Px ?R"
        proof (cases k)
          case 0
          with k show ?thesis by simp
        next
          case (Suc j)
          with k have "P = Px + skip + j * skip" by simp
          with lt show ?thesis by auto
        qed
      next
        assume "P \<in> insert Px ?R"
        then consider "P = Px" | "P \<in> ?R" by blast
        then show "P \<in> ?L"
        proof cases
          case 1
          have "Px = Px + 0 * skip" by simp
          with 1 True show ?thesis by blast
        next
          case 2
          then obtain k where k: "P = Px + skip + k * skip" and lt: "P < W" by blast
          then have "P = Px + Suc k * skip" by simp
          with lt show ?thesis by (metis (mono_tags, lifting) le_add1 mem_Collect_eq)
        qed
      qed
    qed
    with step ih show ?thesis by simp
  next
    case False
    then have "stride Px skip W = []" by (subst stride.simps) simp
    with False show ?thesis by auto
  qed
qed

lemma stride_distinct: "distinct (stride Px N W)"
proof (induction Px N W rule: stride.induct)
  case (1 Px skip W)
  show ?case
  proof (cases "Px < W \<and> 0 < skip")
    case True
    then have step: "stride Px skip W = Px # stride (Px + skip) skip W"
      by (subst stride.simps) simp
    have "Px \<notin> set (stride (Px + skip) skip W)"
      using True stride_set [of skip "Px + skip" W] by simp
    with step "1.IH" True show ?thesis by simp
  next
    case False
    then have "stride Px skip W = []" by (subst stride.simps) auto
    then show ?thesis by simp
  qed
qed

lemma column_loop_stride:
  assumes "0 < xSkip c"
    and "\<And>P line out. emit P line out = Ok (out @ [f P line])"
  shows "column_loop c emit Px out
       = Some (Ok (out @ map (\<lambda>P. f P (line_loop c P 0 [])) (stride Px (xSkip c) (width c))))"
  using assms(1)
proof (induction Px "xSkip c" "width c" arbitrary: out rule: stride.induct)
  case (1 Px)
  show ?case
  proof (cases "Px < width c")
    case True
    have "column_loop c emit Px out
        = column_loop c emit (Px + xSkip c) (out @ [f Px (line_loop c Px 0 [])])"
      using True by (subst column_loop.simps) (simp add: assms(2))
    also have "\<dots> = Some (Ok ((out @ [f Px (line_loop c Px 0 [])])
          @ map (\<lambda>P. f P (line_loop c P 0 [])) (stride (Px + xSkip c) (xSkip c) (width c))))"
      using "1.hyps" True "1.prems" by simp
    also have "stride Px (xSkip c) (width c) = Px # stride (Px + xSkip c) (xSkip c) (width c)"
      using True "1.prems" by (subst stride.simps) simp
    then have "(out @ [f Px (line_loop c Px 0 [])])
          @ map (\<lambda>P. f P (line_loop c P 0 [])) (stride (Px + xSkip c) (xSkip c) (width c))
        = out @ map (\<lambda>P. f P (line_loop c P 0 [])) (stride Px (xSkip c) (width c))"
      by simp
    finally show ?thesis .
  next
    case False
    then have "stride Px (xSkip c) (width c) = []" by (subst stride.simps) simp
    moreover from False have "column_loop c emit Px out = Some (Ok out)"
      by (subst column_loop.simps) simp
    ultimately show ?thesis by simp
  qed
qed

lemma worker_output_stride:
  assumes "0 < xSkip c"
  shows "worker_output c = Some (map (\<lambda>P. \<lparr>col_Px = P, col_line = line_loop c P 0 [],
            col_heightScalar = HNum (heightScalar_of c)\<rparr>) (stride (xInit c) (xSkip c) (width c)))"
  unfolding worker_output_def baseRender_def
  by (subst column_loop_stride [OF assms, where f = "\<lambda>P line. \<lparr>col_Px = P, col_line = line,
            col_heightScalar = HNum (heightScalar_of c)\<rparr>"]) (simp_all add: postMessage_def)

lemma task_columns_stride:
  "0 < xSkip c \<Longrightarrow> task_columns c = Some (stride (xInit c) (xSkip c) (width c))"
  by (simp add: task_columns_def worker_output_stride comp_def)


lemma terminate_workers:
  "length (workers (terminate k s)) = length (workers s)
   \<and> (\<forall>j<length (workers s). workers (terminate k s) ! j =
        (if j = k then (workers s ! j)\<lparr>w_terminated := True\<rparr> else workers s ! j))"
  by (simp add: terminate_def nth_list_update)

lemma kill_loop_frame:
  "kill_loop s = s\<lparr>m_renderThreads := [], workers := workers (kill_loop s)\<rparr>"
proof (induction s rule: kill_loop.induct)
  case (1 s)
  show ?case
  proof (cases "length (m_renderThreads s) > 0")
    case True
    let ?s' = "terminate (last (m_renderThreads s)) (s\<lparr>m_renderThreads := butlast (m_renderThreads s)\<rparr>)"
    have k: "kill_loop s = kill_loop ?s'"
      using True by (subst kill_loop.simps) simp
    have "kill_loop ?s' = ?s'\<lparr>m_renderThreads := [], workers := workers (kill_loop ?s')\<rparr>"
      using "1.IH" True by simp
    then show ?thesis
      unfolding k by (simp add: terminate_def split: if_splits)
  next
    case False
    then have "kill_loop s = s" by (subst kill_loop.simps) simp
    with False show ?thesis by simp
  qed
qed

lemma kill_loop_workers:
  "length (workers (kill_loop s)) = length (workers s)
   \<and> (\<forall>j<length (workers s).
        workers (kill_loop s) ! j =
          (if j \<in> set (m_renderThreads s) then (workers s ! j)\<lparr>w_terminated := True\<rparr>
           else workers s ! j))"
proof (induction s rule: kill_loop.induct)
  case (1 s)
  show ?case
  proof (cases "length (m_renderThreads s) > 0")
    case True
    let ?s0 = "s\<lparr>m_renderThreads := butlast (m_renderThreads s)\<rparr>"
    let ?s' = "terminate (last (m_renderThreads s)) ?s0"
    have k: "kill_loop s = kill_loop ?s'"
      using True by (subst kill_loop.simps) simp
    have ih: "length (workers (kill_loop ?s')) = length (workers ?s')
      \<and> (\<forall>j<length (workers ?s').
        workers (kill_loop ?s') ! j =
          (if j \<in> set (m_renderThreads ?s') then (workers ?s' ! j)\<lparr>w_terminated := True\<rparr>
           else workers ?s' ! j))"
      using "1.IH" True by simp
    have t: "length (workers ?s') = length (workers s)
      \<and> (\<forall>j<length (workers s). workers ?s' ! j =
        (if j = last (m_renderThreads s) then (workers s ! j)\<lparr>w_terminated := True\<rparr> else workers s ! j))"
      using terminate_workers [of "last (m_renderThreads s)" ?s0] by simp
    have r: "m_renderThreads ?s' = butlast (m_renderThreads s)"
      by (simp add: terminate_def)
    from True have ne: "m_renderThreads s \<noteq> []" by auto
    then have sets: "set (m_renderThreads s) = insert (last (m_renderThreads s)) (set (butlast (m_renderThreads s)))"
      by (metis append_butlast_last_id list.simps(15) rotate1.simps(2) set_rotate1)
    show ?thesis
      unfolding k using ih t r sets by auto
  next
    case False
    then have "kill_loop s = s" by (subst kill_loop.simps) simp
    with False show ?thesis by simp
  qed
qed

lemma spawn_loop_eq:
  "i \<le> N \<Longrightarrow> length (m_renderThreads s) = i \<Longrightarrow>
   spawn_loop N rc i s =
     s\<lparr>workers := workers s @
          map (\<lambda>j. \<lparr>w_gen = gen s, w_width = width rc, w_xSkip = xSkip rc,
                     w_outbox = worker_output (rc\<lparr>xInit := j\<rparr>), w_terminated = False\<rparr>) [i..<N],
       m_renderThreads := m_renderThreads s @ map (\<lambda>j. length (workers s) + (j - i)) [i..<N]\<rparr>"
proof (induction N rc i s rule: spawn_loop.induct)
  case (1 N rc i s)
  show ?case
  proof (cases "i < N")
    case True
    let ?s' = "spawn (rc\<lparr>xInit := i\<rparr>) i s"
    have st: "spawn_loop N rc i s = spawn_loop N (rc\<lparr>xInit := i\<rparr>) (i + 1) ?s'"
      using True by (subst spawn_loop.simps) simp
    have len: "length (m_renderThreads ?s') = i + 1"
      using "1.prems"(2) by (simp add: spawn_def Let_def)
    have ih: "spawn_loop N (rc\<lparr>xInit := i\<rparr>) (i + 1) ?s' =
       ?s'\<lparr>workers := workers ?s' @
          map (\<lambda>j. \<lparr>w_gen = gen ?s', w_width = width (rc\<lparr>xInit := i\<rparr>), w_xSkip = xSkip (rc\<lparr>xInit := i\<rparr>),
                     w_outbox = worker_output (rc\<lparr>xInit := i\<rparr>\<lparr>xInit := j\<rparr>), w_terminated = False\<rparr>) [i + 1..<N],
       m_renderThreads := m_renderThreads ?s' @ map (\<lambda>j. length (workers ?s') + (j - (i + 1))) [i + 1..<N]\<rparr>"
      using "1.IH" [OF True _ len] True by simp
    have up: "[i..<N] = i # [i + 1..<N]"
      using True by (simp add: upt_conv_Cons)
    have m: "map (\<lambda>j. Suc (length (workers s) + (j - Suc i))) [Suc i..<N]
           = map (\<lambda>j. length (workers s) + (j - i)) [Suc i..<N]"
      by (rule map_cong) auto
    show ?thesis
      unfolding st ih up using "1.prems"(2) m
      by (simp add: spawn_def Let_def)
  next
    case False
    then have "spawn_loop N rc i s = s" by (subst spawn_loop.simps) simp
    with False "1.prems" show ?thesis by simp
  qed
qed

lemma renderWorkers_tasks:
  "map w_outbox (drop (length (workers s)) (workers (renderWorkers rc s)))
     = map (\<lambda>i. worker_output (rc\<lparr>xInit := i\<rparr>)) [0..<xSkip rc]"
proof -
  have r: "m_renderThreads (kill_loop s) = []"
    by (subst kill_loop_frame) simp
  have l: "length (workers (kill_loop s)) = length (workers s)"
    using kill_loop_workers [of s] by simp
  have "spawn_loop (xSkip rc) rc 0 (kill_loop s) =
     (kill_loop s)\<lparr>workers := workers (kill_loop s) @
          map (\<lambda>j. \<lparr>w_gen = gen (kill_loop s), w_width = width rc, w_xSkip = xSkip rc,
                     w_outbox = worker_output (rc\<lparr>xInit := j\<rparr>), w_terminated = False\<rparr>) [0..<xSkip rc],
       m_renderThreads := m_renderThreads (kill_loop s) @ map (\<lambda>j. length (workers (kill_loop s)) + (j - 0)) [0..<xSkip rc]\<rparr>"
    by (rule spawn_loop_eq) (simp_all add: r)
  then show ?thesis
    unfolding renderWorkers_def using l by (simp add: comp_def)
qed

lemma stride_mod:
  assumes "0 < N" "i < N"
  shows "set (stride i N W) = {P. P < W \<and> P mod N = i}"
proof -
  have "{P. i \<le> P \<and> P < W \<and> (\<exists>k. P = i + k * N)} = {P. P < W \<and> P mod N = i}"
  proof (rule set_eqI)
    fix P
    show "P \<in> {P. i \<le> P \<and> P < W \<and> (\<exists>k. P = i + k * N)} \<longleftrightarrow> P \<in> {P. P < W \<and> P mod N = i}"
    proof
      assume "P \<in> {P. i \<le> P \<and> P < W \<and> (\<exists>k. P = i + k * N)}"
      then obtain k where "P = i + k * N" "P < W" by blast
      with assms show "P \<in> {P. P < W \<and> P mod N = i}" by simp
    next
      assume "P \<in> {P. P < W \<and> P mod N = i}"
      then have lt: "P < W" and m: "P mod N = i" by simp_all
      have "P = i + (P div N) * N" using m by (metis div_mult_mod_eq add.commute)
      moreover from this have "i \<le> P" by simp
      ultimately show "P \<in> {P. i \<le> P \<and> P < W \<and> (\<exists>k. P = i + k * N)}"
        using lt by blast
    qed
  qed
  with stride_set [OF assms(1), of i W] show ?thesis by simp
qed

lemma stride_set_init:
  assumes "0 < N"
  shows "set (stride i N W) = {P. P < W \<and> (\<exists>k. P = i + k * N)}"
proof -
  have "\<And>P k. P = i + k * N \<Longrightarrow> i \<le> P" by simp
  then have "{P. i \<le> P \<and> P < W \<and> (\<exists>k. P = i + k * N)} = {P. P < W \<and> (\<exists>k. P = i + k * N)}"
    by blast
  with stride_set [OF assms, of i W] show ?thesis by simp
qed

text \<open>
  C3. For a parallelism \<open>N \<ge> 1\<close> and any width \<open>W\<close>, the task started with \<open>xInit = i\<close>
  ends and posts exactly the columns \<open>i, i + N, i + 2N, \<dots>\<close> below \<open>W\<close>, each once; the
  column sets of two different tasks are disjoint, their union over \<open>i < N\<close> is the whole
  range \<open>[0, W)\<close>, and every column belongs to exactly one task. The tasks that
  \<open>_renderWorkers\<close> starts are those of \<open>xInit = 0, \<dots>, N - 1\<close>.
\<close>

theorem column_partition:
  assumes "1 \<le> N" and "xSkip rc = N" and "width rc = W"
  shows "(\<exists>cols.
            (\<forall>i<N. task_columns (rc\<lparr>xInit := i\<rparr>) = Some (cols i) \<and> distinct (cols i)
                   \<and> set (cols i) = {P. P < W \<and> (\<exists>k. P = i + k * N)})
          \<and> (\<forall>i<N. \<forall>j<N. i \<noteq> j \<longrightarrow> set (cols i) \<inter> set (cols j) = {})
          \<and> (\<Union>i<N. set (cols i)) = {0..<W}
          \<and> (\<forall>P<W. \<exists>!i. i < N \<and> P \<in> set (cols i)))
       \<and> map w_outbox (drop (length (workers s)) (workers (renderWorkers rc s)))
           = map (\<lambda>i. worker_output (rc\<lparr>xInit := i\<rparr>)) [0..<N]"
proof -
  from assms(1) have N: "0 < N" by simp
  let ?cols = "\<lambda>i. stride i N W"
  have a: "\<forall>i<N. task_columns (rc\<lparr>xInit := i\<rparr>) = Some (?cols i) \<and> distinct (?cols i)
                   \<and> set (?cols i) = {P. P < W \<and> (\<exists>k. P = i + k * N)}"
  proof (intro allI impI conjI)
    fix i assume "i < N"
    show "task_columns (rc\<lparr>xInit := i\<rparr>) = Some (?cols i)"
      using task_columns_stride [of "rc\<lparr>xInit := i\<rparr>"] N assms(2,3) by simp
    show "distinct (?cols i)" by (rule stride_distinct)
    show "set (?cols i) = {P. P < W \<and> (\<exists>k. P = i + k * N)}"
      using N by (rule stride_set_init)
  qed
  have m: "\<And>i. i < N \<Longrightarrow> set (?cols i) = {P. P < W \<and> P mod N = i}"
    using stride_mod [OF N] by blast
  have b: "\<forall>i<N. \<forall>j<N. i \<noteq> j \<longrightarrow> set (?cols i) \<inter> set (?cols j) = {}"
    using m by auto
  have c: "(\<Union>i<N. set (?cols i)) = {0..<W}"
  proof (rule set_eqI)
    fix P
    show "P \<in> (\<Union>i<N. set (?cols i)) \<longleftrightarrow> P \<in> {0..<W}"
    proof
      assume "P \<in> (\<Union>i<N. set (?cols i))"
      then obtain i where "i < N" "P \<in> set (?cols i)" by blast
      with m show "P \<in> {0..<W}" by simp
    next
      assume "P \<in> {0..<W}"
      then have "P < W" by simp
      moreover have "P mod N < N" using N by simp
      ultimately have "P \<in> set (?cols (P mod N))" using m by simp
      with \<open>P mod N < N\<close> show "P \<in> (\<Union>i<N. set (?cols i))" by blast
    qed
  qed
  have d: "\<forall>P<W. \<exists>!i. i < N \<and> P \<in> set (?cols i)"
  proof (intro allI impI)
    fix P assume "P < W"
    show "\<exists>!i. i < N \<and> P \<in> set (?cols i)"
    proof (rule ex1I [of _ "P mod N"])
      show "P mod N < N \<and> P \<in> set (?cols (P mod N))"
        using N m \<open>P < W\<close> by simp
    next
      fix i assume "i < N \<and> P \<in> set (?cols i)"
      with m show "i = P mod N" by auto
    qed
  qed
  have e: "map w_outbox (drop (length (workers s)) (workers (renderWorkers rc s)))
           = map (\<lambda>i. worker_output (rc\<lparr>xInit := i\<rparr>)) [0..<N]"
    using renderWorkers_tasks [of s rc] assms(2) by simp
  from a b c d have "\<exists>cols.
            (\<forall>i<N. task_columns (rc\<lparr>xInit := i\<rparr>) = Some (cols i) \<and> distinct (cols i)
                   \<and> set (cols i) = {P. P < W \<and> (\<exists>k. P = i + k * N)})
          \<and> (\<forall>i<N. \<forall>j<N. i \<noteq> j \<longrightarrow> set (cols i) \<inter> set (cols j) = {})
          \<and> (\<Union>i<N. set (cols i)) = {0..<W}
          \<and> (\<forall>P<W. \<exists>!i. i < N \<and> P \<in> set (cols i))"
    by (intro exI [of _ ?cols] conjI)
  with e show ?thesis by blast
qed

text \<open>
  The theorem for two tasks on an image of width \<open>5\<close>.
\<close>

theorem column_partition_witness:
  "\<exists>c0 c1.
      task_columns \<lparr>heightScalar = HNull, iterations = 256, scale = 1, width = 5, height = 1,
                     xDelta = 0, yDelta = 0, xSkip = 2, xInit = 0\<rparr> = Some c0
    \<and> task_columns \<lparr>heightScalar = HNull, iterations = 256, scale = 1, width = 5, height = 1,
                     xDelta = 0, yDelta = 0, xSkip = 2, xInit = 1\<rparr> = Some c1
    \<and> distinct c0 \<and> distinct c1 \<and> set c0 \<inter> set c1 = {} \<and> set c0 \<union> set c1 = {0..<5}"
proof -
  let ?rc = "\<lparr>heightScalar = HNull, iterations = 256, scale = 1, width = 5, height = 1,
              xDelta = 0, yDelta = 0, xSkip = 2, xInit = 0\<rparr>"
  have h: "(1::nat) \<le> 2" "xSkip ?rc = 2" "width ?rc = 5" by simp_all
  note t = column_partition [OF h, of "constructor 5 1 True"]
  from t [THEN conjunct1] obtain cols where
    a: "\<forall>i<2. task_columns (?rc\<lparr>xInit := i\<rparr>) = Some (cols i) \<and> distinct (cols i)
                   \<and> set (cols i) = {P. P < 5 \<and> (\<exists>k. P = i + k * 2)}"
    and b: "\<forall>i<2. \<forall>j<2. i \<noteq> j \<longrightarrow> set (cols i) \<inter> set (cols j) = {}"
    and c: "(\<Union>i<2. set (cols i)) = {0..<5}"
    by (elim exE conjE)
  have l0: "(0::nat) < 2" and l1: "(1::nat) < 2" and ne: "(0::nat) \<noteq> 1" by simp_all
  note a0 = a [rule_format, OF l0, THEN conjunct1]
  note d0 = a [rule_format, OF l0, THEN conjunct2, THEN conjunct1]
  note a1 = a [rule_format, OF l1, THEN conjunct1]
  note d1 = a [rule_format, OF l1, THEN conjunct2, THEN conjunct1]
  from b [rule_format, OF l0 l1 ne] have b01: "set (cols 0) \<inter> set (cols 1) = {}" .
  have "{..<2::nat} = {0, 1}" by auto
  then have "(\<Union>i<2. set (cols i)) = set (cols 0) \<union> set (cols 1)" by simp
  with c have c01: "set (cols 0) \<union> set (cols 1) = {0..<5}" by simp
  have e0: "?rc\<lparr>xInit := 0\<rparr> = ?rc" and e1: "?rc\<lparr>xInit := 1\<rparr> =
      \<lparr>heightScalar = HNull, iterations = 256, scale = 1, width = 5, height = 1,
       xDelta = 0, yDelta = 0, xSkip = 2, xInit = 1\<rparr>" by simp_all
  from a0 a1 d0 d1 b01 c01 show ?thesis
    unfolding e0 e1 by (intro exI [of _ "cols 0"] exI [of _ "cols 1"] conjI)
qed

section \<open>Properties of the sequential render\<close>

lemma direct_cb_known:
  assumes "m_shader s \<in> {BLUE, WHITE, HIST, INTHIST}"
  shows "\<exists>t' k tmr. direct_cb tm col (t, s) =
     Ok (t', s\<lparr>cv_buffer := cv_buffer s @ shade (gen s) (col_Px col) 0 (col_line col) (m_shader s),
               m_heightScalar := col_heightScalar col, clk := k, timers := tmr\<rparr>)"
proof -
  note d = draw_line_known [OF assms, of "gen s" "col_Px col" 0 "col_line col"]
  show ?thesis
  proof (cases "tm (clk s) - t > 50")
    case True
    show ?thesis
      by (rule exI [of _ "tm (clk s + 1)"], rule exI [of _ "clk s + 2"], rule exI [of _ "timers s + 1"])
         (simp add: direct_cb_def d Let_def True)
  next
    case False
    show ?thesis
      by (rule exI [of _ t], rule exI [of _ "clk s + 1"], rule exI [of _ "timers s"])
         (simp add: direct_cb_def d Let_def False)
  qed
qed

lemma direct_loop_known:
  assumes "0 < xSkip c"
  shows "m_shader s \<in> {BLUE, WHITE, HIST, INTHIST} \<Longrightarrow>
         \<exists>t' hs k tmr.
           column_loop c (\<lambda>Px line. direct_cb tm \<lparr>col_Px = Px, col_line = line,
                                                   col_heightScalar = HUndefined\<rparr>) Px (t, s)
           = Some (Ok (t', s\<lparr>cv_buffer := cv_buffer s @
                  concat (map (\<lambda>P. shade (gen s) P 0 (line_loop c P 0 []) (m_shader s))
                            (stride Px (xSkip c) (width c))),
               m_heightScalar := hs, clk := k, timers := tmr\<rparr>))"
  using assms
proof (induction Px "xSkip c" "width c" arbitrary: t s rule: stride.induct)
  case (1 Px)
  let ?emit = "\<lambda>Px line. direct_cb tm \<lparr>col_Px = Px, col_line = line, col_heightScalar = HUndefined\<rparr>"
  show ?case
  proof (cases "Px < width c")
    case True
    let ?sh = "shade (gen s) Px 0 (line_loop c Px 0 []) (m_shader s)"
    from direct_cb_known [OF "1.prems"(1), of tm "\<lparr>col_Px = Px, col_line = line_loop c Px 0 [],
        col_heightScalar = HUndefined\<rparr>" t]
    obtain t1 k1 tmr1 where cb: "?emit Px (line_loop c Px 0 []) (t, s) =
       Ok (t1, s\<lparr>cv_buffer := cv_buffer s @ ?sh, m_heightScalar := HUndefined, clk := k1, timers := tmr1\<rparr>)"
      by auto
    let ?s1 = "s\<lparr>cv_buffer := cv_buffer s @ ?sh, m_heightScalar := HUndefined, clk := k1, timers := tmr1\<rparr>"
    have sh1: "m_shader ?s1 \<in> {BLUE, WHITE, HIST, INTHIST}" using "1.prems"(1) by simp
    from "1.hyps" [OF _ sh1 "1.prems"(2), of t1] True "1.prems"(2)
    obtain t' hs k tmr where ih: "column_loop c ?emit (Px + xSkip c) (t1, ?s1)
       = Some (Ok (t', ?s1\<lparr>cv_buffer := cv_buffer ?s1 @
                  concat (map (\<lambda>P. shade (gen ?s1) P 0 (line_loop c P 0 []) (m_shader ?s1))
                            (stride (Px + xSkip c) (xSkip c) (width c))),
               m_heightScalar := hs, clk := k, timers := tmr\<rparr>))"
      by auto
    have st: "stride Px (xSkip c) (width c) = Px # stride (Px + xSkip c) (xSkip c) (width c)"
      using True "1.prems"(2) by (subst stride.simps) simp
    have "column_loop c ?emit Px (t, s) = column_loop c ?emit (Px + xSkip c) (t1, ?s1)"
      using True by (subst column_loop.simps) (simp add: cb)
    with ih have "column_loop c ?emit Px (t, s) =
        Some (Ok (t', s\<lparr>cv_buffer := cv_buffer s @
                  concat (map (\<lambda>P. shade (gen s) P 0 (line_loop c P 0 []) (m_shader s))
                            (stride Px (xSkip c) (width c))),
               m_heightScalar := hs, clk := k, timers := tmr\<rparr>))"
      by (simp add: st)
    then show ?thesis by blast
  next
    case False
    then have st: "stride Px (xSkip c) (width c) = []" by (subst stride.simps) simp
    from False have "column_loop c ?emit Px (t, s) = Some (Ok (t, s))"
      by (subst column_loop.simps) simp
    then have "column_loop c ?emit Px (t, s) =
        Some (Ok (t, s\<lparr>cv_buffer := cv_buffer s @
                  concat (map (\<lambda>P. shade (gen s) P 0 (line_loop c P 0 []) (m_shader s))
                            (stride Px (xSkip c) (width c))),
               m_heightScalar := m_heightScalar s, clk := clk s, timers := timers s\<rparr>))"
      by (simp add: st)
    then show ?thesis by blast
  qed
qed

lemma stride_one: "stride Px (Suc 0) W = [Px..<W]"
proof (induction Px "Suc 0" W rule: stride.induct)
  case (1 Px W)
  show ?case
  proof (cases "Px < W")
    case True
    then have "stride Px (Suc 0) W = Px # stride (Px + Suc 0) (Suc 0) W" by (subst stride.simps) simp
    with "1.hyps" True show ?thesis by (simp add: upt_conv_Cons)
  next
    case False
    then show ?thesis by (subst stride.simps) simp
  qed
qed

lemma renderDirect_known:
  assumes "m_shader s \<in> {BLUE, WHITE, HIST, INTHIST}"
  shows "\<exists>hs k tmr. renderDirect tm rc s =
     Some (Ok (s\<lparr>cv_buffer := cv_buffer s @
                  concat (map (\<lambda>P. shade (gen s) P 0 (line_loop (rc\<lparr>xSkip := 1, xInit := 0\<rparr>) P 0 []) (m_shader s))
                            [0..<width rc]),
               m_heightScalar := hs, clk := k, timers := tmr\<rparr>))"
proof -
  let ?c = "rc\<lparr>xSkip := 1, xInit := 0\<rparr>"
  let ?s1 = "s\<lparr>clk := clk s + 1\<rparr>"
  have sk: "0 < xSkip ?c" by simp
  have sh: "m_shader ?s1 \<in> {BLUE, WHITE, HIST, INTHIST}" using assms by simp
  from direct_loop_known [OF sk sh, of tm 0 "tm (clk s)"]
  obtain t' hs k tmr where l:
    "column_loop ?c (\<lambda>Px line. direct_cb tm \<lparr>col_Px = Px, col_line = line,
                                                   col_heightScalar = HUndefined\<rparr>) 0 (tm (clk s), ?s1)
           = Some (Ok (t', ?s1\<lparr>cv_buffer := cv_buffer ?s1 @
                  concat (map (\<lambda>P. shade (gen ?s1) P 0 (line_loop ?c P 0 []) (m_shader ?s1))
                            (stride 0 (xSkip ?c) (width ?c))),
               m_heightScalar := hs, clk := k, timers := tmr\<rparr>))"
    by blast
  have "renderDirect tm rc s =
     Some (Ok (s\<lparr>cv_buffer := cv_buffer s @
                  concat (map (\<lambda>P. shade (gen s) P 0 (line_loop ?c P 0 []) (m_shader s))
                            [0..<width rc]),
               m_heightScalar := hs, clk := k, timers := tmr\<rparr>))"
    unfolding renderDirect_def baseRender_def Let_def
    using l by (simp add: stride_one)
  then show ?thesis by blast
qed

lemma render_sync:
  "(if m_width s \<noteq> cv_width s \<or> m_height s \<noteq> cv_height s
    then s\<lparr>m_width := cv_width s, m_height := cv_height s\<rparr> else s)
   = s\<lparr>m_width := cv_width s, m_height := cv_height s\<rparr>"
  by simp

lemma render_sequential_known:
  assumes "\<not> (window_Worker s \<and> m_renderParallel s)"
    and "m_shader s \<in> {BLUE, WHITE, HIST, INTHIST}"
  shows "\<exists>hs k tmr. render tm s =
     Some (Ok (s\<lparr>gen := gen s + 1, m_width := cv_width s, m_height := cv_height s,
               cv_buffer :=
                  concat (map (\<lambda>P. shade (gen s + 1) P 0
                      (line_loop \<lparr>heightScalar = m_heightScalar s, iterations = m_iterations s,
                          scale = m_scale s, width = cv_width s, height = cv_height s,
                          xDelta = m_xDelta s, yDelta = m_yDelta s, xSkip = 1, xInit = 0\<rparr> P 0 [])
                      (m_shader s))
                    [0..<cv_width s]),
               m_heightScalar := hs, clk := k, timers := tmr\<rparr>))"
proof -
  let ?s2 = "s\<lparr>gen := gen s + 1, m_width := cv_width s, m_height := cv_height s, cv_buffer := []\<rparr>"
  let ?rc = "\<lparr>heightScalar = m_heightScalar s, iterations = m_iterations s,
                scale = m_scale s, width = cv_width s, height = cv_height s,
                xDelta = m_xDelta s, yDelta = m_yDelta s, xSkip = m_parallelism s,
                xInit = 0\<rparr>"
  from assms(1) consider "\<not> window_Worker s" | "\<not> m_renderParallel s" by blast
  then have r: "render tm s = renderDirect tm ?rc ?s2"
  proof cases
    case 1
    then show ?thesis
      unfolding render_def Let_def clearBuffer_def by (simp only: render_sync) simp
  next
    case 2
    then show ?thesis
      unfolding render_def Let_def clearBuffer_def by (simp only: render_sync) simp
  qed
  have sh: "m_shader ?s2 \<in> {BLUE, WHITE, HIST, INTHIST}" using assms(2) by simp
  from renderDirect_known [OF sh, of tm ?rc] obtain hs k tmr where
    "renderDirect tm ?rc ?s2 = Some (Ok (?s2\<lparr>cv_buffer := cv_buffer ?s2 @
                  concat (map (\<lambda>P. shade (gen ?s2) P 0 (line_loop (?rc\<lparr>xSkip := 1, xInit := 0\<rparr>) P 0 []) (m_shader ?s2))
                            [0..<width ?rc]),
               m_heightScalar := hs, clk := k, timers := tmr\<rparr>))"
    by blast
  with r have "render tm s =
     Some (Ok (s\<lparr>gen := gen s + 1, m_width := cv_width s, m_height := cv_height s,
               cv_buffer :=
                  concat (map (\<lambda>P. shade (gen s + 1) P 0
                      (line_loop \<lparr>heightScalar = m_heightScalar s, iterations = m_iterations s,
                          scale = m_scale s, width = cv_width s, height = cv_height s,
                          xDelta = m_xDelta s, yDelta = m_yDelta s, xSkip = 1, xInit = 0\<rparr> P 0 [])
                      (m_shader s))
                    [0..<cv_width s]),
               m_heightScalar := hs, clk := k, timers := tmr\<rparr>))"
    by simp
  then show ?thesis by blast
qed

section \<open>\<open>render\<close> and the configuration\<close>

lemma length_shade: "length (shade g Px idx line mode) = length line"
  by (induction line arbitrary: idx) simp_all

lemma length_line_loop: "length (line_loop c Px 0 []) = height c"
  by (simp add: line_loop_map)

lemma length_concat_const:
  "(\<And>x. length (f x) = H) \<Longrightarrow> length (concat (map f xs)) = length xs * H"
  by (induction xs) simp_all

lemma renderWorkers_eq:
  "renderWorkers rc s =
     (kill_loop s)\<lparr>workers := workers (kill_loop s) @
          map (\<lambda>j. \<lparr>w_gen = gen s, w_width = width rc, w_xSkip = xSkip rc,
                     w_outbox = worker_output (rc\<lparr>xInit := j\<rparr>), w_terminated = False\<rparr>) [0..<xSkip rc],
       m_renderThreads := map (\<lambda>j. length (workers s) + j) [0..<xSkip rc]\<rparr>"
proof -
  have r: "m_renderThreads (kill_loop s) = []"
    by (subst kill_loop_frame) simp
  have g: "gen (kill_loop s) = gen s"
    by (subst kill_loop_frame) simp
  have l: "length (workers (kill_loop s)) = length (workers s)"
    using kill_loop_workers [of s] by simp
  have "spawn_loop (xSkip rc) rc 0 (kill_loop s) =
     (kill_loop s)\<lparr>workers := workers (kill_loop s) @
          map (\<lambda>j. \<lparr>w_gen = gen (kill_loop s), w_width = width rc, w_xSkip = xSkip rc,
                     w_outbox = worker_output (rc\<lparr>xInit := j\<rparr>), w_terminated = False\<rparr>) [0..<xSkip rc],
       m_renderThreads := m_renderThreads (kill_loop s) @ map (\<lambda>j. length (workers (kill_loop s)) + (j - 0)) [0..<xSkip rc]\<rparr>"
    by (rule spawn_loop_eq) (simp_all add: r)
  then show ?thesis
    unfolding renderWorkers_def by (simp add: r g l)
qed

lemma render_parallel:
  assumes "window_Worker s" and "m_renderParallel s"
  shows "render tm s =
     Some (Ok (renderWorkers
        \<lparr>heightScalar = m_heightScalar s, iterations = m_iterations s,
          scale = m_scale s, width = cv_width s, height = cv_height s,
          xDelta = m_xDelta s, yDelta = m_yDelta s, xSkip = m_parallelism s, xInit = 0\<rparr>
        (s\<lparr>gen := gen s + 1, m_width := cv_width s, m_height := cv_height s, cv_buffer := []\<rparr>)))"
  using assms unfolding render_def Let_def clearBuffer_def by (simp only: render_sync) simp

lemma render_result:
  assumes "m_shader s = BLUE \<or> m_shader s = WHITE"
  shows "\<exists>s'. render tm s = Some (Ok s')
       \<and> (if window_Worker s \<and> m_renderParallel s
          then length (workers s') = length (workers s) + m_parallelism s \<and> cv_buffer s' = []
          else length (cv_buffer s') = cv_width s * cv_height s)"
proof (cases "window_Worker s \<and> m_renderParallel s")
  case True
  let ?rc = "\<lparr>heightScalar = m_heightScalar s, iterations = m_iterations s,
          scale = m_scale s, width = cv_width s, height = cv_height s,
          xDelta = m_xDelta s, yDelta = m_yDelta s, xSkip = m_parallelism s, xInit = 0\<rparr>"
  let ?s2 = "s\<lparr>gen := gen s + 1, m_width := cv_width s, m_height := cv_height s, cv_buffer := []\<rparr>"
  from True have r: "render tm s = Some (Ok (renderWorkers ?rc ?s2))"
    by (simp add: render_parallel)
  have b: "cv_buffer (kill_loop ?s2) = []"
    by (subst kill_loop_frame) simp
  have l: "length (workers (kill_loop ?s2)) = length (workers s)"
    using kill_loop_workers [of ?s2] by simp
  have "length (workers (renderWorkers ?rc ?s2)) = length (workers s) + m_parallelism s
      \<and> cv_buffer (renderWorkers ?rc ?s2) = []"
    using b l by (subst (1 2) renderWorkers_eq) simp
  with r show ?thesis
    unfolding if_P [OF True] by simp
next
  case False
  from assms have k: "m_shader s \<in> {BLUE, WHITE, HIST, INTHIST}" by auto
  from render_sequential_known [OF False k, of tm] obtain hs k tmr where
    r: "render tm s =
     Some (Ok (s\<lparr>gen := gen s + 1, m_width := cv_width s, m_height := cv_height s,
               cv_buffer :=
                  concat (map (\<lambda>P. shade (gen s + 1) P 0
                      (line_loop \<lparr>heightScalar = m_heightScalar s, iterations = m_iterations s,
                          scale = m_scale s, width = cv_width s, height = cv_height s,
                          xDelta = m_xDelta s, yDelta = m_yDelta s, xSkip = 1, xInit = 0\<rparr> P 0 [])
                      (m_shader s))
                    [0..<cv_width s]),
               m_heightScalar := hs, clk := k, timers := tmr\<rparr>))"
    by blast
  have "length (concat (map (\<lambda>P. shade (gen s + 1) P 0
                      (line_loop \<lparr>heightScalar = m_heightScalar s, iterations = m_iterations s,
                          scale = m_scale s, width = cv_width s, height = cv_height s,
                          xDelta = m_xDelta s, yDelta = m_yDelta s, xSkip = 1, xInit = 0\<rparr> P 0 [])
                      (m_shader s))
                    [0..<cv_width s])) = length [0..<cv_width s] * cv_height s"
    by (rule length_concat_const) (simp add: length_shade length_line_loop)
  with r show ?thesis
    unfolding if_not_P [OF False] by simp
qed

text \<open>
  C7, as the code has it. \<open>render\<close> validates nothing and raises no configuration error.
  For every state of the object, whatever its scale, iteration cap and canvas size, and
  with shader mode Blue or White, it returns normally: with workers it has cleared the
  buffer and started \<open>parallelism\<close> tasks, without them it has computed and drawn
  \<open>width * height\<close> pixels.
\<close>

theorem render_no_validation:
  assumes "m_shader s = BLUE \<or> m_shader s = WHITE"
  shows "\<exists>s'. render tm s = Some (Ok s')
       \<and> (if window_Worker s \<and> m_renderParallel s
          then length (workers s') = length (workers s) + m_parallelism s \<and> cv_buffer s' = []
          else length (cv_buffer s') = cv_width s * cv_height s)"
  using assms by (rule render_result)

text \<open>
  The theorem on a 1 by 1 canvas with the scale \<open>-1\<close>, without workers.
\<close>

theorem render_no_validation_witness:
  "m_scale ((constructor 1 1 False)\<lparr>m_scale := -1\<rparr>) \<le> 0
   \<and> (\<exists>s'. render (\<lambda>n. 0) ((constructor 1 1 False)\<lparr>m_scale := -1\<rparr>) = Some (Ok s')
           \<and> length (cv_buffer s') = 1)"
proof -
  have "m_shader ((constructor 1 1 False)\<lparr>m_scale := -1\<rparr>) = BLUE
      \<or> m_shader ((constructor 1 1 False)\<lparr>m_scale := -1\<rparr>) = WHITE"
    by (simp add: constructor_def)
  from render_no_validation [OF this, of "\<lambda>n. 0"] show ?thesis
    by (simp add: constructor_def)
qed

text \<open>
  With the scale \<open>-1\<close> on a 1 by 1 canvas, the sequential render returns normally and has
  computed a pixel; on a canvas of size zero, the parallel render returns normally and
  has started two tasks.
\<close>

theorem render_no_validation_counterexample:
  "m_scale ((constructor 1 1 False)\<lparr>m_scale := -1\<rparr>) \<le> 0
   \<and> map_option is_Ok (render (\<lambda>n. 0) ((constructor 1 1 False)\<lparr>m_scale := -1\<rparr>)) = Some True
   \<and> map_option (\<lambda>r. length (cv_buffer (state_of r)))
        (render (\<lambda>n. 0) ((constructor 1 1 False)\<lparr>m_scale := -1\<rparr>)) = Some 1
   \<and> cv_width (constructor 0 0 True) = 0
   \<and> map_option is_Ok (render (\<lambda>n. 0) (constructor 0 0 True)) = Some True
   \<and> map_option (\<lambda>r. length (workers (state_of r))) (render (\<lambda>n. 0) (constructor 0 0 True)) = Some 2"
proof -
  have a: "m_shader ((constructor 1 1 False)\<lparr>m_scale := -1\<rparr>) = BLUE
      \<or> m_shader ((constructor 1 1 False)\<lparr>m_scale := -1\<rparr>) = WHITE"
    by (simp add: constructor_def)
  have b: "m_shader (constructor 0 0 True) = BLUE \<or> m_shader (constructor 0 0 True) = WHITE"
    by (simp add: constructor_def)
  from render_result [OF a, of "\<lambda>n. 0"] obtain s1 where
    s1: "render (\<lambda>n. 0) ((constructor 1 1 False)\<lparr>m_scale := -1\<rparr>) = Some (Ok s1)"
      "length (cv_buffer s1) = 1"
    by (auto simp: constructor_def)
  from render_result [OF b, of "\<lambda>n. 0"] obtain s2 where
    s2: "render (\<lambda>n. 0) (constructor 0 0 True) = Some (Ok s2)"
      "length (workers s2) = 2"
    by (auto simp: constructor_def)
  show ?thesis
    unfolding s1 s2 using s1(2) s2(2) by (simp add: constructor_def)
qed

section \<open>The end-to-end scenario\<close>

lemma escape_loop_invariant:
  assumes "\<And>x y. I x y \<Longrightarrow> x * x + y * y < 4 \<and> I (x * x - y * y + x0) (2 * x * y + y0)"
  shows "I x y \<Longrightarrow> iteration \<le> K \<Longrightarrow> escape_loop x0 y0 K x y iteration = K"
  using assms
proof (induction x0 y0 K x y iteration rule: escape_loop.induct)
  case (1 x0 y0 K x y iteration)
  show ?case
  proof (cases "iteration < K")
    case True
    from "1.prems"(3) [OF "1.prems"(1)]
    have b: "x * x + y * y < 4" and n: "I (x * x - y * y + x0) (2 * x * y + y0)"
      by simp_all
    from b True have g: "x * x + y * y < 4 \<and> iteration < K" by simp
    have "escape_loop x0 y0 K (x * x - y * y + x0) (2 * x * y + y0) (iteration + 1) = K"
      using True by (intro "1.IH" [OF g n _ "1.prems"(3)]) simp_all
    with b True show ?thesis by (simp add: escape_loop_step)
  next
    case False
    with "1.prems"(2) have "iteration = K" by simp
    then show ?thesis by (simp add: escape_loop_stop)
  qed
qed

lemma square_le:
  fixes x b :: real
  assumes "- b \<le> x" and "x \<le> b"
  shows "x * x \<le> b * b"
proof -
  from assms have "\<bar>x\<bar> \<le> \<bar>b\<bar>" by simp
  then have "x\<^sup>2 \<le> b\<^sup>2" by (simp only: abs_le_square_iff)
  then show ?thesis by (simp add: power2_eq_square)
qed

lemma real_axis_bounded:
  fixes b x0 :: real
  assumes "b * b < 4" and "- b \<le> x0" and "b * b + x0 \<le> b" and "0 \<le> b" and "0 < K"
  shows "escapeTime x0 0 K = Num 0"
proof -
  let ?I = "\<lambda>x y. y = (0::real) \<and> - b \<le> x \<and> x \<le> b"
  have step: "\<And>x y. ?I x y \<Longrightarrow> x * x + y * y < 4 \<and> ?I (x * x - y * y + x0) (2 * x * y + 0)"
  proof -
    fix x y :: real
    assume i: "?I x y"
    then have sq: "x * x \<le> b * b" by (simp add: square_le)
    have "0 \<le> x * x" by simp
    then have lo: "- b \<le> x * x + x0" using assms(2) by (rule add_increasing)
    have hi: "x * x + x0 \<le> b" using sq assms(3) by linarith
    have lt: "x * x < 4" using sq assms(1) by linarith
    from i lo hi lt show "x * x + y * y < 4 \<and> ?I (x * x - y * y + x0) (2 * x * y + 0)"
      by simp
  qed
  have "escape_loop x0 0 K 0 0 0 = K"
  proof (rule escape_loop_invariant [where I = ?I])
    fix x y :: real
    assume "y = 0 \<and> - b \<le> x \<and> x \<le> b"
    then show "x * x + y * y < 4 \<and> 2 * x * y + 0 = 0 \<and> - b \<le> x * x - y * y + x0 \<and> x * x - y * y + x0 \<le> b"
      by (rule step)
  next
    show "(0::real) = 0 \<and> - b \<le> 0 \<and> 0 \<le> b" using assms(4) by simp
  next
    show "(0::nat) \<le> K" by simp
  qed
  with assms(5) show ?thesis
    by (simp add: escapeTime_def normalize_def js_div_def)
qed

lemma upt4: "[0..<4] = [0, 1, 2, 3]"
  by code_simp

lemma scenario_bounded:
  "escapeTime (- (13 / 8)) 0 50 = Num 0"
  "escapeTime (- (3 / 4)) 0 50 = Num 0"
  "escapeTime (1 / 8) 0 50 = Num 0"
  by (rule real_axis_bounded [where b = "9/5"], simp_all)
     (rule real_axis_bounded [where b = "3/4"], simp_all,
      rule real_axis_bounded [where b = "1/2"], simp_all)

lemma scenario_escaping:
  "escapeTime (- (5 / 2)) (- (7 / 4)) 50 = Num (1 / 50)"
  "escapeTime (- (5 / 2)) (- (7 / 8)) 50 = Num (1 / 50)"
  "escapeTime (- (5 / 2)) 0 50 = Num (1 / 50)"
  "escapeTime (- (5 / 2)) (7 / 8) 50 = Num (1 / 50)"
  "escapeTime (- (13 / 8)) (- (7 / 4)) 50 = Num (1 / 50)"
  "escapeTime (- (13 / 8)) (- (7 / 8)) 50 = Num (3 / 50)"
  "escapeTime (- (13 / 8)) (7 / 8) 50 = Num (3 / 50)"
  "escapeTime (- (3 / 4)) (- (7 / 4)) 50 = Num (2 / 50)"
  "escapeTime (- (3 / 4)) (- (7 / 8)) 50 = Num (4 / 50)"
  "escapeTime (- (3 / 4)) (7 / 8) 50 = Num (4 / 50)"
  "escapeTime (1 / 8) (- (7 / 4)) 50 = Num (2 / 50)"
  "escapeTime (1 / 8) (- (7 / 8)) 50 = Num (5 / 50)"
  "escapeTime (1 / 8) (7 / 8) 50 = Num (5 / 50)"
  by (simp_all add: escapeTime_def normalize_def js_div_def escape_loop_step escape_loop_stop)

lemma scenario_lines:
  "line_loop \<lparr>heightScalar = h, iterations = 50, scale = 1, width = 4, height = 4,
               xDelta = 0, yDelta = 0, xSkip = sk, xInit = xi\<rparr> 0 0 []
     = [Num (1 / 50), Num (1 / 50), Num (1 / 50), Num (1 / 50)]"
  "line_loop \<lparr>heightScalar = h, iterations = 50, scale = 1, width = 4, height = 4,
               xDelta = 0, yDelta = 0, xSkip = sk, xInit = xi\<rparr> (Suc 0) 0 []
     = [Num (1 / 50), Num (3 / 50), Num 0, Num (3 / 50)]"
  "line_loop \<lparr>heightScalar = h, iterations = 50, scale = 1, width = 4, height = 4,
               xDelta = 0, yDelta = 0, xSkip = sk, xInit = xi\<rparr> 2 0 []
     = [Num (2 / 50), Num (4 / 50), Num 0, Num (4 / 50)]"
  "line_loop \<lparr>heightScalar = h, iterations = 50, scale = 1, width = 4, height = 4,
               xDelta = 0, yDelta = 0, xSkip = sk, xInit = xi\<rparr> 3 0 []
     = [Num (2 / 50), Num (5 / 50), Num 0, Num (5 / 50)]"
  by (simp_all add: line_loop_map upt4 pixelIntensity_def coordinates_def Let_def
        scenario_bounded scenario_escaping)

lemma scenario_render:
  assumes "\<not> window_Worker s" and "m_shader s = WHITE" and "m_iterations s = 50"
    and "m_scale s = 1" and "m_xDelta s = 0" and "m_yDelta s = 0"
    and "cv_width s = 4" and "cv_height s = 4"
  shows "\<exists>s'. render tm s = Some (Ok s') \<and> map snd (cv_buffer s') = scenario_framebuffer
            \<and> \<not> window_Worker s' \<and> m_shader s' = WHITE \<and> m_iterations s' = 50
            \<and> m_scale s' = 1 \<and> m_xDelta s' = 0 \<and> m_yDelta s' = 0
            \<and> cv_width s' = 4 \<and> cv_height s' = 4"
proof -
  from assms(1) have seq: "\<not> (window_Worker s \<and> m_renderParallel s)" by simp
  from assms(2) have k: "m_shader s \<in> {BLUE, WHITE, HIST, INTHIST}" by simp
  from render_sequential_known [OF seq k, of tm] obtain hs k tmr where
    r: "render tm s =
     Some (Ok (s\<lparr>gen := gen s + 1, m_width := cv_width s, m_height := cv_height s,
               cv_buffer :=
                  concat (map (\<lambda>P. shade (gen s + 1) P 0
                      (line_loop \<lparr>heightScalar = m_heightScalar s, iterations = m_iterations s,
                          scale = m_scale s, width = cv_width s, height = cv_height s,
                          xDelta = m_xDelta s, yDelta = m_yDelta s, xSkip = 1, xInit = 0\<rparr> P 0 [])
                      (m_shader s))
                    [0..<cv_width s]),
               m_heightScalar := hs, clk := k, timers := tmr\<rparr>))"
    by blast
  have b: "map snd (concat (map (\<lambda>P. shade (gen s + 1) P 0
                      (line_loop \<lparr>heightScalar = m_heightScalar s, iterations = 50,
                          scale = 1, width = 4, height = 4,
                          xDelta = 0, yDelta = 0, xSkip = 1, xInit = 0\<rparr> P 0 [])
                      WHITE)
                    [0..<4])) = scenario_framebuffer"
    by (simp add: upt4 scenario_lines pixelShader_def BLUE_def WHITE_def
          scenario_framebuffer_def gray_def)
  show ?thesis
    unfolding r using b assms by simp
qed

text \<open>
  C9. On the scenario's input the sequential render returns normally, for every
  sequence of clock readings, and the pixels it has drawn are the sixteen of
  \<open>scenario_framebuffer\<close>. A second run draws the same pixels, whether it is made
  on an identical object with other clock readings or on the same object after the first.
\<close>

theorem render_deterministic:
  "\<exists>s1 s2 s3.
      render tm scenario = Some (Ok s1) \<and> map snd (cv_buffer s1) = scenario_framebuffer
    \<and> render tm' scenario = Some (Ok s2) \<and> map snd (cv_buffer s2) = map snd (cv_buffer s1)
    \<and> render tm' s1 = Some (Ok s3) \<and> map snd (cv_buffer s3) = map snd (cv_buffer s1)"
proof -
  have pre: "\<not> window_Worker scenario" "m_shader scenario = WHITE" "m_iterations scenario = 50"
    "m_scale scenario = 1" "m_xDelta scenario = 0" "m_yDelta scenario = 0"
    "cv_width scenario = 4" "cv_height scenario = 4"
    by (simp_all add: scenario_def constructor_def)
  from scenario_render [OF pre, of tm] obtain s1 where
    s1: "render tm scenario = Some (Ok s1)" "map snd (cv_buffer s1) = scenario_framebuffer"
    and pre1: "\<not> window_Worker s1" "m_shader s1 = WHITE" "m_iterations s1 = 50"
      "m_scale s1 = 1" "m_xDelta s1 = 0" "m_yDelta s1 = 0" "cv_width s1 = 4" "cv_height s1 = 4"
    by (elim exE conjE)
  from scenario_render [OF pre, of tm'] obtain s2 where
    s2: "render tm' scenario = Some (Ok s2)" "map snd (cv_buffer s2) = scenario_framebuffer"
    by (elim exE conjE)
  from scenario_render [OF pre1, of tm'] obtain s3 where
    s3: "render tm' s1 = Some (Ok s3)" "map snd (cv_buffer s3) = scenario_framebuffer"
    by (elim exE conjE)
  show ?thesis
    by (intro exI [of _ s1] exI [of _ s2] exI [of _ s3] conjI) (simp_all add: s1 s2 s3)
qed

text \<open>
  The theorem for a clock that stands still and a clock that advances by 100 ms at each
  reading.
\<close>

theorem render_deterministic_witness:
  "\<exists>s1 s2 s3.
      render (\<lambda>n. 0) scenario = Some (Ok s1) \<and> map snd (cv_buffer s1) = scenario_framebuffer
    \<and> render (\<lambda>n. 100 * int n) scenario = Some (Ok s2)
    \<and> map snd (cv_buffer s2) = map snd (cv_buffer s1)
    \<and> render (\<lambda>n. 100 * int n) s1 = Some (Ok s3)
    \<and> map snd (cv_buffer s3) = map snd (cv_buffer s1)"
  by (rule render_deterministic)

section \<open>Generations of renders\<close>

















end
